theory Spec2Isabelle
  imports Complex_Main
begin

section \<open>The audio engine: data model\<close>

text \<open>
  The development embeds the class \<open>AudioEngine\<close> (the later of the two variants of the
  engine in the sources, the one whose fallback channels fade in and out; the pitch
  mapper and the wrapper \<open>stopFn\<close> read the same in both). The engine
  drives the platform's audio graph only through method calls, so the graph is modelled
  as the sequence of calls the engine has issued, in order; a node is named by the number
  of its creation. The engine's own fields, the platform clock, the pending
  \<open>setTimeout\<close> callbacks and the registered \<open>onended\<close> handlers are fields of one
  state record that every operation takes and returns.

  Numbers are real numbers. The one place where the source's arithmetic leaves them is
  \<open>Math.sqrt\<close> of a negative ratio, which is \<open>NaN\<close>: it is modelled as \<open>None\<close>, and
  writing it to an audio parameter raises a \<open>TypeError\<close>, as the platform does.
\<close>

datatype InteractionType = BIRD | WIND | LEAVES | WATER | RAIN | INSECT

type_synonym node = nat

datatype param = Gain | Frequency | PlaybackRate | Detune | Qfactor

datatype target = ToNode node | ToParam node param | ToDestination

datatype wave = Sine | Sawtooth | Triangle | Square

datatype filt = Lowpass | Highpass

datatype buffer = Sample InteractionType | Noise

datatype call =
    CreateGain node
  | CreateOscillator node
  | CreateBiquadFilter node
  | CreateBufferSource node
  | CreateNoiseBuffer
  | SetBuffer node buffer
  | SetLoop node bool
  | SetWave node wave
  | SetFilter node filt
  | SetValue node param real
  | SetValueAtTime node param real real
  | LinearRamp node param real real
  | ExponentialRamp node param real real
  | SetTarget node param real real real
  | CancelScheduled node param real
  | Connect node target
  | Disconnect node
  | Start node real
  | Stop node real
  | Resume

datatype error = TypeError | InvalidStateError | NoSuchEvent

text \<open>
  The callbacks the engine hands to \<open>setTimeout\<close> and to \<open>onended\<close>. The flag of the
  two BIRD callbacks says whether the caller supplied \<open>onEnded\<close>.
\<close>

datatype callback = PianoNext | DroneTeardown "node list" | BirdTimeout bool

datatype handler = BirdEnded bool | NoteCleanup node node

record state =
  ctx :: bool
  suspended :: bool
  tinnitusOsc :: "node option"
  tinnitusGain :: "node option"
  masterGain :: "node option"
  buffers :: "InteractionType \<Rightarrow> real option"
  droneNodes :: "node list"
  pianoTimeout :: "nat option"
  activeSounds :: "InteractionType set"
  rainGainNode :: "node option"
  now :: real
  calls :: "call list"
  fresh :: node
  timers :: "(nat \<times> real \<times> callback) list"
  nextTimer :: nat
  onended :: "(node \<times> handler) list"
  onEndedCalls :: nat

text \<open>
  \<open>ctx\<close> says whether \<open>this.ctx\<close> is set; \<open>buffers\<close> stands for the six buffer
  fields, each holding the duration of the decoded sample or nothing; \<open>now\<close> is
  \<open>ctx.currentTime\<close>; \<open>onEndedCalls\<close> counts the invocations of the caller's
  \<open>onEnded\<close>.
\<close>

definition emit :: "call list \<Rightarrow> state \<Rightarrow> state" where
  "emit cs s = s\<lparr>calls := calls s @ cs\<rparr>"

fun is_start :: "node \<Rightarrow> call \<Rightarrow> bool" where
  "is_start n (Start m t) = (m = n)"
| "is_start n c = False"

definition started :: "node \<Rightarrow> call list \<Rightarrow> bool" where
  "started n cs = list_ex (is_start n) cs"

definition andThen :: "error + 'a \<Rightarrow> ('a \<Rightarrow> error + 'b) \<Rightarrow> error + 'b" where
  "andThen r f = (case r of Inl e \<Rightarrow> Inl e | Inr x \<Rightarrow> f x)"

text \<open>\<open>this.ctx!.currentTime\<close>: a null context raises.\<close>

definition currentTime :: "state \<Rightarrow> error + real" where
  "currentTime s = (if ctx s then Inr (now s) else Inl TypeError)"

text \<open>\<open>stop(when)\<close> of a source node raises on a node that was never started.\<close>

definition stopAt :: "node \<Rightarrow> real \<Rightarrow> state \<Rightarrow> error + state" where
  "stopAt n t s = (if started n (calls s) then Inr (emit [Stop n t] s) else Inl InvalidStateError)"

definition setTimeout :: "callback \<Rightarrow> real \<Rightarrow> state \<Rightarrow> nat \<times> state" where
  "setTimeout cb delay s =
     (nextTimer s, s\<lparr>timers := timers s @ [(nextTimer s, delay, cb)], nextTimer := Suc (nextTimer s)\<rparr>)"

definition clearTimeout :: "nat \<Rightarrow> state \<Rightarrow> state" where
  "clearTimeout h s = s\<lparr>timers := filter (\<lambda>e. fst e \<noteq> h) (timers s)\<rparr>"

text \<open>\<open>Math.random()\<close> lies in \<open>[0, 1)\<close>: the fractional part of a number the environment supplies.\<close>

definition Math_random :: "real \<Rightarrow> real" where
  "Math_random seed = frac seed"

section \<open>Initialisation and asset loading\<close>

definition init :: "state \<Rightarrow> state" where
  "init s =
     (let s1 = (if \<not> ctx s
                then (emit [CreateGain (fresh s), Connect (fresh s) ToDestination,
                            SetValue (fresh s) Gain 0.5] s)
                       \<lparr>ctx := True, masterGain := Some (fresh s), fresh := Suc (fresh s)\<rparr>
                else s)
      in if suspended s1 then (emit [Resume] s1)\<lparr>suspended := False\<rparr> else s1)"

text \<open>\<open>fetched\<close> is what \<open>loadBuffer\<close> returned for each of the six files.\<close>

definition loadAmbientTrack :: "(InteractionType \<Rightarrow> real option) \<Rightarrow> state \<Rightarrow> state" where
  "loadAmbientTrack fetched s =
     (let s1 = init s in if \<not> ctx s1 then s1 else s1\<lparr>buffers := fetched\<rparr>)"

section \<open>The pitch mapper\<close>

text \<open>The result \<open>None\<close> is \<open>NaN\<close>. Every call site passes the base frequency 8000.\<close>

definition calculatePitch :: "real \<Rightarrow> real \<Rightarrow> bool \<Rightarrow> real option" where
  "calculatePitch tinnitusFreq baseFreq aggressive =
     (let ratio = tinnitusFreq / baseFreq in
      if aggressive then Some (max 0.5 (min 2.5 ratio))
      else if ratio < 0 then None
      else Some (max 0.6 (min 1.8 (sqrt ratio))))"

text \<open>The value of \<open>rate\<close> that the branch of \<open>playInteractionSound\<close> for a category computes.\<close>

fun multiplier :: "InteractionType \<Rightarrow> real \<Rightarrow> real option" where
  "multiplier BIRD f = calculatePitch f 8000 True"
| "multiplier LEAVES f = calculatePitch f 8000 False"
| "multiplier WIND f = calculatePitch f 8000 False"
| "multiplier WATER f = calculatePitch f 8000 False"
| "multiplier RAIN f = calculatePitch f 8000 False"
| "multiplier INSECT f = calculatePitch f 8000 True"

text \<open>The specification's \<open>clamp(x, lo, hi)\<close>.\<close>

definition clamp :: "real \<Rightarrow> real \<Rightarrow> real \<Rightarrow> real" where
  "clamp x lo hi = (if x < lo then lo else if hi < x then hi else x)"

section \<open>The calibration tone\<close>

definition stopTinnitusTone :: "state \<Rightarrow> error + state" where
  "stopTinnitusTone s =
     (let s1 = (case tinnitusGain s of
                  Some g \<Rightarrow> if ctx s then emit [ExponentialRamp g Gain 0.001 (now s + 0.5)] s else s
                | None \<Rightarrow> s)
      in case tinnitusOsc s1 of
           Some osc \<Rightarrow>
             andThen (currentTime s1) (\<lambda>t.
             andThen (stopAt osc (t + 0.6) s1) (\<lambda>s2.
             Inr (s2\<lparr>tinnitusOsc := None\<rparr>)))
         | None \<Rightarrow> Inr s1)"

definition startTinnitusTone :: "real \<Rightarrow> real \<Rightarrow> state \<Rightarrow> error + state" where
  "startTinnitusTone frequency vol s0 =
     (let s = init s0 in
      case masterGain s of
        None \<Rightarrow> Inr s
      | Some m \<Rightarrow>
          if \<not> ctx s then Inr s
          else andThen (if tinnitusOsc s \<noteq> None then stopTinnitusTone s else Inr s) (\<lambda>s1.
            let osc = fresh s1; g = Suc (fresh s1); t = now s1 in
            Inr ((emit [CreateOscillator osc, CreateGain g, SetWave osc Sine,
                        SetValueAtTime osc Frequency frequency t,
                        SetValueAtTime g Gain 0 t,
                        LinearRamp g Gain vol (t + 0.1),
                        Connect osc (ToNode g), Connect g (ToNode m),
                        Start osc 0] s1)
                   \<lparr>tinnitusOsc := Some osc, tinnitusGain := Some g, fresh := fresh s1 + 2\<rparr>)))"

definition updateTinnitusFreq :: "real \<Rightarrow> state \<Rightarrow> state" where
  "updateTinnitusFreq frequency s =
     (case tinnitusOsc s of
        Some osc \<Rightarrow> if ctx s then emit [SetTarget osc Frequency frequency (now s) 0.1] s else s
      | None \<Rightarrow> s)"

text \<open>
  \<open>startAmbientTrack\<close>: no assignment in the class ever sets \<open>ambientSource\<close>, so its
  stop branch never runs; what is left is the initialisation.
\<close>

definition startAmbientTrack :: "real \<Rightarrow> state \<Rightarrow> state" where
  "startAmbientTrack tinnitusFreq s = init s"

section \<open>The drone\<close>

definition startDrone :: "state \<Rightarrow> state" where
  "startDrone s0 =
     (if droneNodes s0 \<noteq> [] then s0
      else let s = init s0 in
        case masterGain s of
          None \<Rightarrow> s
        | Some m \<Rightarrow>
            if \<not> ctx s then s
            else let t = now s; root = 98;
                     droneMaster = fresh s; osc1 = fresh s + 1; filter1 = fresh s + 2;
                     osc2 = fresh s + 3; filter2 = fresh s + 4; osc3 = fresh s + 5;
                     subGain = fresh s + 6; lfo = fresh s + 7; lfoGain = fresh s + 8
              in (emit [CreateGain droneMaster, SetValue droneMaster Gain 0,
                        Connect droneMaster (ToNode m),
                        CreateOscillator osc1, SetWave osc1 Sawtooth, SetValue osc1 Frequency root,
                        CreateBiquadFilter filter1, SetFilter filter1 Lowpass,
                        SetValue filter1 Frequency 350, SetValue filter1 Qfactor 1,
                        Connect osc1 (ToNode filter1), Connect filter1 (ToNode droneMaster),
                        CreateOscillator osc2, SetWave osc2 Sawtooth, SetValue osc2 Frequency root,
                        SetValue osc2 Detune 10,
                        CreateBiquadFilter filter2, SetFilter filter2 Lowpass,
                        SetValue filter2 Frequency 400,
                        Connect osc2 (ToNode filter2), Connect filter2 (ToNode droneMaster),
                        CreateOscillator osc3, SetWave osc3 Sine, SetValue osc3 Frequency (root / 2),
                        CreateGain subGain, SetValue subGain Gain 0.4,
                        Connect osc3 (ToNode subGain), Connect subGain (ToNode droneMaster),
                        CreateOscillator lfo, SetValue lfo Frequency 0.1,
                        CreateGain lfoGain, SetValue lfoGain Gain 100,
                        Connect lfo (ToNode lfoGain), Connect lfoGain (ToParam filter1 Frequency),
                        Connect lfoGain (ToParam filter2 Frequency),
                        Start osc1 t, Start osc2 t, Start osc3 t, Start lfo t,
                        LinearRamp droneMaster Gain 0.06 (t + 4)] s)
                   \<lparr>droneNodes := [droneMaster, osc1, filter1, osc2, filter2, osc3, subGain,
                                   lfo, lfoGain],
                    fresh := fresh s + 9\<rparr>)"

definition stopDrone :: "state \<Rightarrow> state" where
  "stopDrone s =
     (case droneNodes s of
        [] \<Rightarrow> s
      | master # rest \<Rightarrow>
          if \<not> ctx s then s
          else (snd (setTimeout (DroneTeardown (droneNodes s)) 1600
                  (emit [CancelScheduled master Gain (now s),
                         LinearRamp master Gain 0 (now s + 1.5)] s)))
                 \<lparr>droneNodes := []\<rparr>)"

definition toggleDrone :: "bool \<Rightarrow> state \<Rightarrow> state" where
  "toggleDrone shouldPlay s = (if shouldPlay then startDrone s else stopDrone s)"

text \<open>
  The teardown callback: \<open>stop\<close> where the node has that method (the \<open>try\<close> swallows
  what it raises), then \<open>disconnect\<close>.
\<close>

definition is_source :: "node \<Rightarrow> call list \<Rightarrow> bool" where
  "is_source n cs = (CreateOscillator n \<in> set cs \<or> CreateBufferSource n \<in> set cs)"

fun teardown :: "node list \<Rightarrow> state \<Rightarrow> state" where
  "teardown [] s = s"
| "teardown (n # ns) s =
     teardown ns (emit ((if is_source n (calls s) \<and> started n (calls s) then [Stop n 0] else [])
                        @ [Disconnect n]) s)"

section \<open>The generative sequencer\<close>

definition scale :: "real list" where
  "scale = [196.00, 233.08, 261.63, 293.66, 349.23, 392.00, 466.16]"

text \<open>The four seeds are the four \<open>Math.random()\<close> draws of one note, in the order of the source.\<close>

definition playNextPianoNote :: "real \<times> real \<times> real \<times> real \<Rightarrow> state \<Rightarrow> state" where
  "playNextPianoNote seeds s =
     (case seeds of (r1, r2, r3, r4) \<Rightarrow>
      case masterGain s of
        None \<Rightarrow> s
      | Some m \<Rightarrow>
          if \<not> ctx s then s
          else let freq = scale ! nat \<lfloor>Math_random r1 * real (length scale)\<rfloor>;
                   velocity = 0.03 + Math_random r2 * 0.03;
                   t = now s;
                   osc = fresh s; filter = fresh s + 1; gain = fresh s + 2;
                   s1 = (emit [CreateOscillator osc, SetWave osc Triangle,
                               SetValue osc Frequency freq,
                               CreateBiquadFilter filter, SetFilter filter Lowpass,
                               SetValue filter Frequency (600 + Math_random r3 * 200),
                               SetValue filter Qfactor 0.5,
                               CreateGain gain,
                               Connect osc (ToNode filter), Connect filter (ToNode gain),
                               Connect gain (ToNode m),
                               SetValueAtTime gain Gain 0 t,
                               LinearRamp gain Gain velocity (t + 0.1),
                               ExponentialRamp gain Gain 0.001 (t + 4),
                               Start osc t, Stop osc (t + 4.5)] s)
                          \<lparr>fresh := fresh s + 3,
                           onended := onended s @ [(osc, NoteCleanup filter gain)]\<rparr>;
                   nextTime = 2000 + Math_random r4 * 3000;
                   timer = setTimeout PianoNext nextTime s1
               in (snd timer)\<lparr>pianoTimeout := Some (fst timer)\<rparr>)"

text \<open>\<open>if (this.pianoTimeout)\<close>: a number is truthy unless it is zero.\<close>

fun truthy :: "nat option \<Rightarrow> bool" where
  "truthy None = False"
| "truthy (Some h) = (h \<noteq> 0)"

definition startPiano :: "real \<times> real \<times> real \<times> real \<Rightarrow> state \<Rightarrow> state" where
  "startPiano seeds s = (if truthy (pianoTimeout s) then s else playNextPianoNote seeds (init s))"

definition stopPiano :: "state \<Rightarrow> state" where
  "stopPiano s =
     (case pianoTimeout s of
        Some h \<Rightarrow> if h \<noteq> 0 then (clearTimeout h s)\<lparr>pianoTimeout := None\<rparr> else s
      | None \<Rightarrow> s)"

definition togglePiano :: "bool \<Rightarrow> real \<times> real \<times> real \<times> real \<Rightarrow> state \<Rightarrow> state" where
  "togglePiano shouldPlay seeds s = (if shouldPlay then startPiano seeds s else stopPiano s)"

section \<open>Ducking\<close>

definition othersPlaying :: "state \<Rightarrow> bool" where
  "othersPlaying s = (\<exists>t \<in> activeSounds s. t \<noteq> RAIN)"

definition updateRainDynamics :: "state \<Rightarrow> state" where
  "updateRainDynamics s =
     (case rainGainNode s of
        None \<Rightarrow> s
      | Some g \<Rightarrow>
          if \<not> ctx s then s
          else let targetVol = (if othersPlaying s then 0.05 else 0.15) in
               emit [CancelScheduled g Gain (now s), SetTarget g Gain targetVol (now s) 0.5] s)"

section \<open>Interaction sounds\<close>

text \<open>
  The closures \<open>internalStop\<close> that \<open>playInteractionSound\<close> builds, one constructor for
  each, holding the nodes the closure captured. \<open>Noop\<close> is the initial \<open>() => {}\<close>,
  which the BIRD fallback leaves in place.
\<close>

datatype internal =
    Noop
  | BirdSampled node node
  | LeavesSampled node node
  | LeavesFallback node node node
  | WindSampled node node
  | WindFallback node node
  | WaterSampled node node
  | WaterFallback node node
  | RainSampled node node
  | RainFallback node node
  | InsectSampled node node
  | InsectFallback node node node

text \<open>What \<open>playInteractionSound\<close> returns: the inert \<open>() => {}\<close> or \<open>stopFn\<close>.\<close>

datatype handle = Inert | StopFn InteractionType internal

definition createSource :: "node \<Rightarrow> InteractionType \<Rightarrow> bool \<Rightarrow> call list" where
  "createSource src ty loop = [CreateBufferSource src, SetBuffer src (Sample ty), SetLoop src loop]"

definition noiseSource :: "node \<Rightarrow> call list" where
  "noiseSource noiseSrc =
     [CreateNoiseBuffer, CreateBufferSource noiseSrc, SetBuffer noiseSrc Noise, SetLoop noiseSrc True]"

definition fadeInOut :: "node \<Rightarrow> real \<Rightarrow> real \<Rightarrow> bool \<Rightarrow> real \<Rightarrow> real \<Rightarrow> call list" where
  "fadeInOut gainNode t duration loop fadeTime targetVol =
     [SetValueAtTime gainNode Gain 0 t, LinearRamp gainNode Gain targetVol (t + fadeTime)]
     @ (if \<not> loop \<and> duration > 0
        then [SetValueAtTime gainNode Gain targetVol (t + duration - fadeTime),
              LinearRamp gainNode Gain 0 (t + duration)]
        else [])"

text \<open>The body both BIRD callbacks share.\<close>

definition birdDone :: "bool \<Rightarrow> state \<Rightarrow> state" where
  "birdDone cb s =
     (let s1 = updateRainDynamics (s\<lparr>activeSounds := activeSounds s - {BIRD}\<rparr>)
      in if cb then s1\<lparr>onEndedCalls := Suc (onEndedCalls s1)\<rparr> else s1)"

text \<open>
  The branches of \<open>playInteractionSound\<close>. Each takes the reference frequency, the
  master gain node and the state after the ducking update, and returns the closure
  \<open>internalStop\<close> with the new state. Writing \<open>NaN\<close> to \<open>playbackRate.value\<close> raises.
\<close>

definition playBIRD :: "real \<Rightarrow> bool \<Rightarrow> node \<Rightarrow> state \<Rightarrow> error + internal \<times> state" where
  "playBIRD tinnitusFreq cb m s =
     (let t = now s in
      case buffers s BIRD of
        Some duration \<Rightarrow>
          (let src = fresh s; gain = fresh s + 1 in
           case calculatePitch tinnitusFreq 8000 True of
             None \<Rightarrow> Inl TypeError
           | Some rate \<Rightarrow>
               Inr (BirdSampled src gain,
                    (emit (createSource src BIRD False
                           @ [CreateGain gain, SetValue src PlaybackRate rate,
                              Connect src (ToNode gain), Connect gain (ToNode m)]
                           @ fadeInOut gain t (duration / rate) False 0.2 0.7
                           @ [Start src t]) s)
                      \<lparr>fresh := fresh s + 2, onended := onended s @ [(src, BirdEnded cb)]\<rparr>))
      | None \<Rightarrow>
          (let carrier = fresh s; modulator = fresh s + 1; modGain = fresh s + 2;
               mainGain = fresh s + 3;
               s1 = (emit [CreateOscillator carrier, CreateOscillator modulator,
                           CreateGain modGain, CreateGain mainGain,
                           SetWave carrier Sine,
                           SetValueAtTime carrier Frequency 2000 t,
                           ExponentialRamp carrier Frequency 1200 (t + 0.15),
                           SetWave modulator Sine,
                           SetValue modulator Frequency 40,
                           SetValue modGain Gain 500,
                           Connect modulator (ToNode modGain),
                           Connect modGain (ToParam carrier Frequency),
                           Connect carrier (ToNode mainGain),
                           Connect mainGain (ToNode m),
                           SetValueAtTime mainGain Gain 0 t,
                           LinearRamp mainGain Gain 0.1 (t + 0.05),
                           ExponentialRamp mainGain Gain 0.001 (t + 0.4),
                           Start carrier t, Start modulator t,
                           Stop carrier (t + 0.5), Stop modulator (t + 0.5)] s)
                      \<lparr>fresh := fresh s + 4\<rparr>
           in Inr (Noop, snd (setTimeout (BirdTimeout cb) 500 s1))))"

definition playLEAVES :: "real \<Rightarrow> real \<Rightarrow> node \<Rightarrow> state \<Rightarrow> error + internal \<times> state" where
  "playLEAVES tinnitusFreq seed m s =
     (let t = now s in
      case buffers s LEAVES of
        Some duration \<Rightarrow>
          (let src = fresh s; gain = fresh s + 1 in
           case calculatePitch tinnitusFreq 8000 False of
             None \<Rightarrow> Inl TypeError
           | Some rate \<Rightarrow>
               Inr (LeavesSampled gain src,
                    (emit (createSource src LEAVES True
                           @ [CreateGain gain,
                              SetValue src PlaybackRate (rate * (0.9 + Math_random seed * 0.2)),
                              Connect src (ToNode gain), Start src t, Connect gain (ToNode m)]
                           @ fadeInOut gain t 0 True 0.3 0.6) s)
                      \<lparr>fresh := fresh s + 2\<rparr>))
      | None \<Rightarrow>
          (let gain = fresh s; noiseSrc = fresh s + 1; filter = fresh s + 2; lfo = fresh s + 3;
               lfoGain = fresh s + 4 in
           Inr (LeavesFallback gain noiseSrc lfo,
                (emit ([CreateGain gain] @ noiseSource noiseSrc
                       @ [CreateBiquadFilter filter, SetFilter filter Highpass,
                          SetValue filter Frequency 1200, SetValue filter Qfactor 1.0,
                          CreateOscillator lfo, SetValue lfo Frequency 1.5,
                          CreateGain lfoGain, SetValue lfoGain Gain 300,
                          Connect lfo (ToNode lfoGain), Connect lfoGain (ToParam filter Frequency),
                          Connect noiseSrc (ToNode filter), Connect filter (ToNode gain),
                          Connect gain (ToNode m),
                          Start noiseSrc t, Start lfo t]
                       @ fadeInOut gain t 0 True 0.5 0.15) s)
                  \<lparr>fresh := fresh s + 5\<rparr>)))"

definition playWIND :: "real \<Rightarrow> node \<Rightarrow> state \<Rightarrow> error + internal \<times> state" where
  "playWIND tinnitusFreq m s =
     (let t = now s in
      case buffers s WIND of
        Some duration \<Rightarrow>
          (let src = fresh s; gain = fresh s + 1 in
           case calculatePitch tinnitusFreq 8000 False of
             None \<Rightarrow> Inl TypeError
           | Some rate \<Rightarrow>
               Inr (WindSampled gain src,
                    (emit (createSource src WIND True
                           @ [CreateGain gain, SetValue src PlaybackRate rate,
                              Connect src (ToNode gain), Start src t, Connect gain (ToNode m)]
                           @ fadeInOut gain t 0 True 1.0 0.8) s)
                      \<lparr>fresh := fresh s + 2\<rparr>))
      | None \<Rightarrow>
          (let gain = fresh s; noiseSrc = fresh s + 1; filter = fresh s + 2 in
           Inr (WindFallback gain noiseSrc,
                (emit ([CreateGain gain] @ noiseSource noiseSrc
                       @ [CreateBiquadFilter filter, SetFilter filter Lowpass,
                          SetValue filter Frequency 300, SetValue filter Qfactor 0.5,
                          Connect noiseSrc (ToNode filter), Connect filter (ToNode gain),
                          Connect gain (ToNode m),
                          Start noiseSrc t]
                       @ fadeInOut gain t 0 True 2.0 0.25) s)
                  \<lparr>fresh := fresh s + 3\<rparr>)))"

definition playWATER :: "real \<Rightarrow> real \<Rightarrow> node \<Rightarrow> state \<Rightarrow> error + internal \<times> state" where
  "playWATER tinnitusFreq seed m s =
     (let t = now s in
      case buffers s WATER of
        Some duration \<Rightarrow>
          (let src = fresh s; gain = fresh s + 1 in
           case calculatePitch tinnitusFreq 8000 False of
             None \<Rightarrow> Inl TypeError
           | Some rate \<Rightarrow>
               Inr (WaterSampled gain src,
                    (emit (createSource src WATER True
                           @ [CreateGain gain,
                              SetValue src PlaybackRate (rate * (0.95 + Math_random seed * 0.1)),
                              Connect src (ToNode gain), Start src t, Connect gain (ToNode m)]
                           @ fadeInOut gain t 0 True 1.5 0.7) s)
                      \<lparr>fresh := fresh s + 2\<rparr>))
      | None \<Rightarrow>
          (let gain = fresh s; noiseSrc = fresh s + 1; filter = fresh s + 2 in
           Inr (WaterFallback gain noiseSrc,
                (emit ([CreateGain gain] @ noiseSource noiseSrc
                       @ [CreateBiquadFilter filter, SetFilter filter Lowpass,
                          SetValue filter Frequency 150,
                          Connect noiseSrc (ToNode filter), Connect filter (ToNode gain),
                          Connect gain (ToNode m),
                          Start noiseSrc t]
                       @ fadeInOut gain t 0 True 2.0 0.3) s)
                  \<lparr>fresh := fresh s + 3\<rparr>)))"

definition playRAIN :: "real \<Rightarrow> node \<Rightarrow> state \<Rightarrow> error + internal \<times> state" where
  "playRAIN tinnitusFreq m s =
     (let t = now s in
      case buffers s RAIN of
        Some duration \<Rightarrow>
          (let src = fresh s; gain = fresh s + 1 in
           case calculatePitch tinnitusFreq 8000 False of
             None \<Rightarrow> Inl TypeError
           | Some rate \<Rightarrow>
               (let startVol = (if othersPlaying s then 0.05 else 0.15) in
                Inr (RainSampled gain src,
                     (emit (createSource src RAIN True
                            @ [CreateGain gain, SetValue src PlaybackRate rate,
                               Connect src (ToNode gain), Start src t, Connect gain (ToNode m),
                               SetValueAtTime gain Gain 0 t,
                               LinearRamp gain Gain startVol (t + 0.8)]) s)
                       \<lparr>fresh := fresh s + 2, rainGainNode := Some gain\<rparr>)))
      | None \<Rightarrow>
          (let gain = fresh s; noiseSrc = fresh s + 1; filter = fresh s + 2;
               startVol = (if othersPlaying s then 0.03 else 0.08) in
           Inr (RainFallback gain noiseSrc,
                (emit ([CreateGain gain] @ noiseSource noiseSrc
                       @ [CreateBiquadFilter filter, SetFilter filter Highpass,
                          SetValue filter Frequency 800,
                          Connect noiseSrc (ToNode filter), Connect filter (ToNode gain),
                          Connect gain (ToNode m),
                          Start noiseSrc t,
                          SetValueAtTime gain Gain 0 t,
                          LinearRamp gain Gain startVol (t + 1.0)]) s)
                  \<lparr>fresh := fresh s + 3, rainGainNode := Some gain\<rparr>)))"

definition playINSECT :: "real \<Rightarrow> node \<Rightarrow> state \<Rightarrow> error + internal \<times> state" where
  "playINSECT tinnitusFreq m s =
     (let t = now s in
      case buffers s INSECT of
        Some duration \<Rightarrow>
          (let src = fresh s; gain = fresh s + 1 in
           case calculatePitch tinnitusFreq 8000 True of
             None \<Rightarrow> Inl TypeError
           | Some rate \<Rightarrow>
               Inr (InsectSampled gain src,
                    (emit (createSource src INSECT True
                           @ [CreateGain gain, SetValue src PlaybackRate rate,
                              Connect src (ToNode gain), Start src t, Connect gain (ToNode m)]
                           @ fadeInOut gain t 0 True 0.3 0.5) s)
                      \<lparr>fresh := fresh s + 2\<rparr>))
      | None \<Rightarrow>
          (let gain = fresh s; carrier = fresh s + 1; modulator = fresh s + 2;
               modGain = fresh s + 3; mainGain = fresh s + 4 in
           Inr (InsectFallback mainGain carrier modulator,
                (emit ([CreateGain gain,
                        CreateOscillator carrier, CreateOscillator modulator,
                        CreateGain modGain, CreateGain mainGain,
                        SetWave carrier Triangle,
                        SetValue carrier Frequency (if tinnitusFreq > 0 then tinnitusFreq else 6000),
                        SetWave modulator Square,
                        SetValue modulator Frequency 30,
                        SetValue modGain Gain 800,
                        Connect modulator (ToNode modGain),
                        Connect modGain (ToParam carrier Frequency),
                        Connect carrier (ToNode mainGain),
                        Connect mainGain (ToNode m),
                        Start carrier t, Start modulator t]
                       @ fadeInOut mainGain t 0 True 0.5 0.05) s)
                  \<lparr>fresh := fresh s + 5\<rparr>)))"

fun playBranch ::
  "InteractionType \<Rightarrow> real \<Rightarrow> bool \<Rightarrow> real \<Rightarrow> node \<Rightarrow> state \<Rightarrow> error + internal \<times> state" where
  "playBranch BIRD f cb seed m s = playBIRD f cb m s"
| "playBranch LEAVES f cb seed m s = playLEAVES f seed m s"
| "playBranch WIND f cb seed m s = playWIND f m s"
| "playBranch WATER f cb seed m s = playWATER f seed m s"
| "playBranch RAIN f cb seed m s = playRAIN f m s"
| "playBranch INSECT f cb seed m s = playINSECT f m s"

text \<open>
  \<open>playInteractionSound type tinnitusFreq cb seed\<close>: \<open>cb\<close> says whether \<open>onEnded\<close> was
  passed, \<open>seed\<close> feeds the one \<open>Math.random()\<close> of the sampled LEAVES and WATER
  branches.
\<close>

definition playInteractionSound ::
  "InteractionType \<Rightarrow> real \<Rightarrow> bool \<Rightarrow> real \<Rightarrow> state \<Rightarrow> error + handle \<times> state" where
  "playInteractionSound type tinnitusFreq cb seed s0 =
     (let s = init s0 in
      case masterGain s of
        None \<Rightarrow> Inr (Inert, s)
      | Some m \<Rightarrow>
          if \<not> ctx s then Inr (Inert, s)
          else andThen
                 (playBranch type tinnitusFreq cb seed m
                    (updateRainDynamics (s\<lparr>activeSounds := insert type (activeSounds s)\<rparr>)))
                 (\<lambda>r. Inr (StopFn type (fst r), snd r)))"

text \<open>The closures, run. The \<open>try\<close> of the sampled BIRD closure swallows what its body raises.\<close>

fun internalStop :: "internal \<Rightarrow> state \<Rightarrow> error + state" where
  "internalStop Noop s = Inr s"
| "internalStop (BirdSampled src gain) s =
     (case currentTime s of
        Inl e \<Rightarrow> Inr s
      | Inr t \<Rightarrow>
          (case stopAt src (t + 0.5) s of
             Inl e \<Rightarrow> Inr s
           | Inr s1 \<Rightarrow> Inr (emit [LinearRamp gain Gain 0 (t + 0.5)] s1)))"
| "internalStop (LeavesSampled gain src) s =
     andThen (currentTime s) (\<lambda>t.
       stopAt src (t + 0.7)
         (emit [CancelScheduled gain Gain t, LinearRamp gain Gain 0 (t + 0.6)] s))"
| "internalStop (LeavesFallback gain noiseSrc lfo) s =
     andThen (currentTime s) (\<lambda>t.
     andThen (stopAt noiseSrc (t + 0.6) (emit [LinearRamp gain Gain 0 (t + 0.5)] s))
       (stopAt lfo (t + 0.6)))"
| "internalStop (WindSampled gain src) s =
     andThen (currentTime s) (\<lambda>t.
       stopAt src (t + 1.6)
         (emit [CancelScheduled gain Gain t, LinearRamp gain Gain 0 (t + 1.5)] s))"
| "internalStop (WindFallback gain noiseSrc) s =
     andThen (currentTime s) (\<lambda>t.
       stopAt noiseSrc (t + 2.1) (emit [LinearRamp gain Gain 0 (t + 2.0)] s))"
| "internalStop (WaterSampled gain src) s =
     andThen (currentTime s) (\<lambda>t.
       stopAt src (t + 1.6)
         (emit [CancelScheduled gain Gain t, LinearRamp gain Gain 0 (t + 1.5)] s))"
| "internalStop (WaterFallback gain noiseSrc) s =
     andThen (currentTime s) (\<lambda>t.
       stopAt noiseSrc (t + 2.1) (emit [LinearRamp gain Gain 0 (t + 2.0)] s))"
| "internalStop (RainSampled gain src) s =
     andThen (currentTime s) (\<lambda>t.
       stopAt src (t + 0.9)
         (emit [CancelScheduled gain Gain t, LinearRamp gain Gain 0 (t + 0.8)]
            (s\<lparr>rainGainNode := None\<rparr>)))"
| "internalStop (RainFallback gain noiseSrc) s =
     andThen (currentTime s) (\<lambda>t.
       stopAt noiseSrc (t + 1.1)
         (emit [LinearRamp gain Gain 0 (t + 1.0)] (s\<lparr>rainGainNode := None\<rparr>)))"
| "internalStop (InsectSampled gain src) s =
     andThen (currentTime s) (\<lambda>t.
       stopAt src (t + 0.6)
         (emit [CancelScheduled gain Gain t, LinearRamp gain Gain 0 (t + 0.5)] s))"
| "internalStop (InsectFallback mainGain carrier modulator) s =
     andThen (currentTime s) (\<lambda>t.
     andThen (stopAt carrier (t + 0.4) (emit [LinearRamp mainGain Gain 0 (t + 0.3)] s))
       (stopAt modulator (t + 0.4)))"

text \<open>Calling the returned stop function.\<close>

fun callStop :: "handle \<Rightarrow> state \<Rightarrow> error + state" where
  "callStop Inert s = Inr s"
| "callStop (StopFn type i) s =
     andThen (internalStop i s) (\<lambda>s1.
       Inr (updateRainDynamics (s1\<lparr>activeSounds := activeSounds s1 - {type}\<rparr>)))"

section \<open>Events and runs\<close>

text \<open>
  What can happen to the engine: a call of a public operation, a call of a stop function
  handed out earlier, the firing of a pending timer, the \<open>ended\<close> event of a source
  node, and the passing of time. An event that cannot occur in the state (a timer that is
  not pending, a node without handler) is \<open>NoSuchEvent\<close>.
\<close>

datatype action =
    Init
  | Load "InteractionType \<Rightarrow> real option"
  | StartTone real real
  | UpdateTone real
  | StopTone
  | StartAmbient real
  | ToggleDrone bool
  | TogglePiano bool "real \<times> real \<times> real \<times> real"
  | Play InteractionType real bool real
  | CallStop handle
  | PianoTimer nat "real \<times> real \<times> real \<times> real"
  | DroneTimer nat
  | BirdTimer nat
  | BirdSourceEnded node
  | NoteEnded node
  | Advance real

definition dropHandler :: "node \<Rightarrow> state \<Rightarrow> state" where
  "dropHandler n s = s\<lparr>onended := filter (\<lambda>e. fst e \<noteq> n) (onended s)\<rparr>"

fun exec :: "action \<Rightarrow> state \<Rightarrow> error + state" where
  "exec Init s = Inr (init s)"
| "exec (Load fetched) s = Inr (loadAmbientTrack fetched s)"
| "exec (StartTone f v) s = startTinnitusTone f v s"
| "exec (UpdateTone f) s = Inr (updateTinnitusFreq f s)"
| "exec StopTone s = stopTinnitusTone s"
| "exec (StartAmbient f) s = Inr (startAmbientTrack f s)"
| "exec (ToggleDrone b) s = Inr (toggleDrone b s)"
| "exec (TogglePiano b seeds) s = Inr (togglePiano b seeds s)"
| "exec (Play ty f cb seed) s = andThen (playInteractionSound ty f cb seed s) (\<lambda>r. Inr (snd r))"
| "exec (CallStop h) s = callStop h s"
| "exec (PianoTimer h seeds) s =
     (case map_of (timers s) h of
        Some (d, PianoNext) \<Rightarrow> Inr (playNextPianoNote seeds (clearTimeout h s))
      | _ \<Rightarrow> Inl NoSuchEvent)"
| "exec (DroneTimer h) s =
     (case map_of (timers s) h of
        Some (d, DroneTeardown ns) \<Rightarrow> Inr (teardown ns (clearTimeout h s))
      | _ \<Rightarrow> Inl NoSuchEvent)"
| "exec (BirdTimer h) s =
     (case map_of (timers s) h of
        Some (d, BirdTimeout cb) \<Rightarrow> Inr (birdDone cb (clearTimeout h s))
      | _ \<Rightarrow> Inl NoSuchEvent)"
| "exec (BirdSourceEnded n) s =
     (case map_of (onended s) n of
        Some (BirdEnded cb) \<Rightarrow> Inr (birdDone cb (dropHandler n s))
      | _ \<Rightarrow> Inl NoSuchEvent)"
| "exec (NoteEnded n) s =
     (case map_of (onended s) n of
        Some (NoteCleanup flt gain) \<Rightarrow>
          Inr (emit [Disconnect n, Disconnect flt, Disconnect gain] (dropHandler n s))
      | _ \<Rightarrow> Inl NoSuchEvent)"
| "exec (Advance d) s = (if d < 0 then Inl NoSuchEvent else Inr (s\<lparr>now := now s + d\<rparr>))"

fun run :: "action list \<Rightarrow> state \<Rightarrow> error + state" where
  "run [] s = Inr s"
| "run (a # as) s = andThen (exec a s) (run as)"

text \<open>The engine as constructed, before any asset is loaded.\<close>

definition initial :: state where
  "initial =
     \<lparr>ctx = False, suspended = True, tinnitusOsc = None, tinnitusGain = None,
      masterGain = None, buffers = (\<lambda>ty. None), droneNodes = [], pianoTimeout = None,
      activeSounds = {}, rainGainNode = None, now = 0, calls = [], fresh = 0, timers = [],
      nextTimer = 1, onended = [], onEndedCalls = 0\<rparr>"

section \<open>Invariants and observations\<close>

text \<open>Once the context exists, so does the master gain node.\<close>

definition graph_ok :: "state \<Rightarrow> bool" where
  "graph_ok s = (ctx s \<longrightarrow> masterGain s \<noteq> None)"

text \<open>
  A later state: the context, once there, stays, and the calls issued so far are a
  prefix of the calls issued then.
\<close>

definition extends :: "state \<Rightarrow> state \<Rightarrow> bool" where
  "extends s s' = ((ctx s \<longrightarrow> ctx s') \<and> (\<exists>cs. calls s' = calls s @ cs))"

text \<open>The source nodes a stop closure holds.\<close>

fun sources :: "internal \<Rightarrow> node list" where
  "sources Noop = []"
| "sources (BirdSampled src gain) = [src]"
| "sources (LeavesSampled gain src) = [src]"
| "sources (LeavesFallback gain noiseSrc lfo) = [noiseSrc, lfo]"
| "sources (WindSampled gain src) = [src]"
| "sources (WindFallback gain noiseSrc) = [noiseSrc]"
| "sources (WaterSampled gain src) = [src]"
| "sources (WaterFallback gain noiseSrc) = [noiseSrc]"
| "sources (RainSampled gain src) = [src]"
| "sources (RainFallback gain noiseSrc) = [noiseSrc]"
| "sources (InsectSampled gain src) = [src]"
| "sources (InsectFallback mainGain carrier modulator) = [carrier, modulator]"

text \<open>
  Membership as the requests alone determine it: a start of X makes X a member, a call of
  a stop function of X or the natural end of a BIRD channel ends the membership, and
  nothing else matters.
\<close>

fun after_event :: "InteractionType \<Rightarrow> action \<Rightarrow> bool \<Rightarrow> bool" where
  "after_event X (Play Y f cb seed) b = (X = Y \<or> b)"
| "after_event X (CallStop (StopFn Y i)) b = (X \<noteq> Y \<and> b)"
| "after_event X (BirdTimer h) b = (X \<noteq> BIRD \<and> b)"
| "after_event X (BirdSourceEnded n) b = (X \<noteq> BIRD \<and> b)"
| "after_event X a b = b"

fun member_after :: "InteractionType \<Rightarrow> action list \<Rightarrow> bool \<Rightarrow> bool" where
  "member_after X [] b = b"
| "member_after X (a # as) b = member_after X as (after_event X a b)"

text \<open>
  When a source node sounds: it has been started and no stop time given to it has passed.
  (A one-shot sample also ends by itself; the observation is used for looping sources.)
  A channel sounds when one of the sources its stop closure holds does.
\<close>

fun stop_due :: "node \<Rightarrow> real \<Rightarrow> call \<Rightarrow> bool" where
  "stop_due n t (Stop m u) = (m = n \<and> u \<le> t)"
| "stop_due n t c = False"

definition sounding :: "node \<Rightarrow> state \<Rightarrow> bool" where
  "sounding n s = (started n (calls s) \<and> \<not> list_ex (stop_due n (now s)) (calls s))"

fun channel_sounding :: "handle \<Rightarrow> state \<Rightarrow> bool" where
  "channel_sounding Inert s = False"
| "channel_sounding (StopFn ty i) s = list_ex (\<lambda>n. sounding n s) (sources i)"

text \<open>
  A scenario with no sample loaded: WIND is started, started again, and the first stop
  function is called.
\<close>

definition first_start :: "handle \<times> state" where
  "first_start = projr (playInteractionSound WIND 8000 False 0 initial)"

definition second_start :: "handle \<times> state" where
  "second_start = projr (playInteractionSound WIND 8000 False 0 (snd first_start))"

definition first_stopped :: state where
  "first_stopped = projr (callStop (fst first_start) (snd second_start))"

text \<open>The calls an operation issued, and the values it wrote to a node's frequency.\<close>

definition issued :: "state \<Rightarrow> state \<Rightarrow> call list" where
  "issued s s' = drop (length (calls s)) (calls s')"

fun frequency_set :: "node \<Rightarrow> call \<Rightarrow> real option" where
  "frequency_set n (SetValue m p v) = (if m = n \<and> p = Frequency then Some v else None)"
| "frequency_set n c = None"

text \<open>The targets that the ducking update gave to a gain node, in order.\<close>

fun target_of :: "node \<Rightarrow> call \<Rightarrow> real option" where
  "target_of n (SetTarget m p v t c) = (if m = n \<and> p = Gain then Some v else None)"
| "target_of n c = None"

definition duckTargets :: "node \<Rightarrow> call list \<Rightarrow> real list" where
  "duckTargets n cs = List.map_filter (target_of n) cs"

text \<open>
  Scenarios with no sample loaded: RAIN is started, then WIND, then WIND is stopped; and
  WIND is started and stopped half a second later.
\<close>

definition rain_then_wind :: "handle \<times> state" where
  "rain_then_wind =
     projr (playInteractionSound WIND 8000 False 0
              (snd (projr (playInteractionSound RAIN 8000 False 0 initial))))"

definition rain_alone_again :: state where
  "rain_alone_again = projr (callStop (fst rain_then_wind) (snd rain_then_wind))"

definition wind_stopped_early :: state where
  "wind_stopped_early = projr (callStop (fst first_start) ((snd first_start)\<lparr>now := 0.5\<rparr>))"

text \<open>The same with a WIND sample of ten seconds loaded.\<close>

definition sampled_start :: "handle \<times> state" where
  "sampled_start =
     projr (playInteractionSound WIND 8000 False 0
              (loadAmbientTrack (\<lambda>ty. if ty = WIND then Some 10 else None) initial))"

definition sampled_stopped_early :: state where
  "sampled_stopped_early =
     projr (callStop (fst sampled_start) ((snd sampled_start)\<lparr>now := 0.5\<rparr>))"

fun creates_oscillator :: "call \<Rightarrow> bool" where
  "creates_oscillator (CreateOscillator n) = True"
| "creates_oscillator c = False"

text \<open>
  The calibration tone: an oscillator the engine holds was started under a context, and a
  gain node is held only once the context exists.
\<close>

definition tone_ok :: "state \<Rightarrow> bool" where
  "tone_ok s = ((\<forall>osc. tinnitusOsc s = Some osc \<longrightarrow> ctx s \<and> started osc (calls s))
                \<and> (tinnitusGain s \<noteq> None \<longrightarrow> ctx s))"

text \<open>
  The sequencer: the pending timers that carry its callback, and the invariant that they
  are exactly the one \<open>pianoTimeout\<close> names. Timer numbers are positive, distinct and
  below the next one to be handed out.
\<close>

definition pianoTimers :: "state \<Rightarrow> nat list" where
  "pianoTimers s = map fst (filter (\<lambda>e. snd (snd e) = PianoNext) (timers s))"

definition sequencer_ok :: "state \<Rightarrow> bool" where
  "sequencer_ok s =
     (pianoTimers s = (case pianoTimeout s of None \<Rightarrow> [] | Some h \<Rightarrow> [h])
      \<and> (\<forall>h. pianoTimeout s = Some h \<longrightarrow> h \<noteq> 0 \<and> ctx s \<and> masterGain s \<noteq> None)
      \<and> (\<forall>e \<in> set (timers s). fst e < nextTimer s)
      \<and> 0 < nextTimer s
      \<and> distinct (map fst (timers s)))"

text \<open>How an event other than the sequencer's may change the timers: not at all, by one
  new timer of another callback, or by the firing of one.\<close>

definition timer_change :: "state \<Rightarrow> state \<Rightarrow> bool" where
  "timer_change s s' =
     ((timers s' = timers s \<and> nextTimer s' = nextTimer s)
      \<or> (\<exists>d cb. cb \<noteq> PianoNext \<and> timers s' = timers s @ [(nextTimer s, d, cb)]
                  \<and> nextTimer s' = Suc (nextTimer s))
      \<or> (\<exists>h d cb. cb \<noteq> PianoNext \<and> map_of (timers s) h = Some (d, cb)
                    \<and> timers s' = filter (\<lambda>e. fst e \<noteq> h) (timers s)
                    \<and> nextTimer s' = nextTimer s))"

text \<open>The fields of the engine object itself, without the platform's side.\<close>

definition engineFields ::
  "state \<Rightarrow> bool \<times> node option \<times> node option \<times> node option \<times> (InteractionType \<Rightarrow> real option)
     \<times> node list \<times> nat option \<times> InteractionType set \<times> node option" where
  "engineFields s =
     (ctx s, tinnitusOsc s, tinnitusGain s, masterGain s, buffers s, droneNodes s,
      pianoTimeout s, activeSounds s, rainGainNode s)"

text \<open>A calibration tone of 6000 Hz, started on the fresh engine.\<close>

definition tone_playing :: state where
  "tone_playing = projr (run [StartTone 6000 0.1] initial)"

text \<open>
  The sequencer enabled on the fresh engine, its first timer fired (which schedules the
  second), and a second of time passed.
\<close>

definition piano_running :: state where
  "piano_running =
     projr (run [PianoTimer 1 (0.1, 0.2, 0.3, 0.4), Advance 1]
              (togglePiano True (0.5, 0.5, 0.5, 0.5) initial))"

text \<open>The random factor the sampled LEAVES and WATER branches multiply the rate with.\<close>

fun jitter :: "InteractionType \<Rightarrow> real \<Rightarrow> real" where
  "jitter LEAVES seed = 0.9 + Math_random seed * 0.2"
| "jitter WATER seed = 0.95 + Math_random seed * 0.1"
| "jitter ty seed = 1"


section \<open>Frame lemmas\<close>

lemma started_simps [simp]:
  "started n [] = False"
  "started n (c # cs) = (is_start n c \<or> started n cs)"
  "started n (cs @ ds) = (started n cs \<or> started n ds)"
  by (simp_all add: started_def)

lemma extends_refl [simp]: "extends s s"
  by (simp add: extends_def)

lemma extends_trans: "extends s s1 \<Longrightarrow> extends s1 s2 \<Longrightarrow> extends s s2"
  by (auto simp: extends_def)


lemma init_fields [simp]:
  "ctx (init s) = True"
  "tinnitusOsc (init s) = tinnitusOsc s"
  "tinnitusGain (init s) = tinnitusGain s"
  "buffers (init s) = buffers s"
  "droneNodes (init s) = droneNodes s"
  "pianoTimeout (init s) = pianoTimeout s"
  "activeSounds (init s) = activeSounds s"
  "rainGainNode (init s) = rainGainNode s"
  "now (init s) = now s"
  "timers (init s) = timers s"
  "nextTimer (init s) = nextTimer s"
  "onended (init s) = onended s"
  "onEndedCalls (init s) = onEndedCalls s"
  by (simp_all add: init_def emit_def Let_def)

lemma init_master: "graph_ok s \<Longrightarrow> masterGain (init s) \<noteq> None"
  by (auto simp: init_def emit_def Let_def graph_ok_def)

lemma init_extends: "extends s (init s)"
  by (auto simp: init_def emit_def Let_def extends_def)

lemma init_idem: "init (init s) = init s"
  by (simp add: init_def emit_def Let_def)

lemma updateRain_fields [simp]:
  "ctx (updateRainDynamics s) = ctx s"
  "tinnitusOsc (updateRainDynamics s) = tinnitusOsc s"
  "tinnitusGain (updateRainDynamics s) = tinnitusGain s"
  "masterGain (updateRainDynamics s) = masterGain s"
  "buffers (updateRainDynamics s) = buffers s"
  "droneNodes (updateRainDynamics s) = droneNodes s"
  "pianoTimeout (updateRainDynamics s) = pianoTimeout s"
  "activeSounds (updateRainDynamics s) = activeSounds s"
  "rainGainNode (updateRainDynamics s) = rainGainNode s"
  "now (updateRainDynamics s) = now s"
  "timers (updateRainDynamics s) = timers s"
  "nextTimer (updateRainDynamics s) = nextTimer s"
  "onended (updateRainDynamics s) = onended s"
  "onEndedCalls (updateRainDynamics s) = onEndedCalls s"
  "fresh (updateRainDynamics s) = fresh s"
  by (simp_all add: updateRainDynamics_def emit_def Let_def split: option.splits)

lemma updateRain_extends: "extends s (updateRainDynamics s)"
  by (auto simp: updateRainDynamics_def emit_def Let_def extends_def split: option.splits)

lemmas branch_defs = playBIRD_def playLEAVES_def playWIND_def playWATER_def playRAIN_def
  playINSECT_def

lemma playBranch_frame:
  assumes "playBranch ty f cb seed m s = Inr (i, s')"
  shows "ctx s' = ctx s \<and> masterGain s' = masterGain s \<and> tinnitusOsc s' = tinnitusOsc s
    \<and> tinnitusGain s' = tinnitusGain s \<and> buffers s' = buffers s \<and> droneNodes s' = droneNodes s
    \<and> pianoTimeout s' = pianoTimeout s \<and> activeSounds s' = activeSounds s \<and> now s' = now s
    \<and> onEndedCalls s' = onEndedCalls s
    \<and> (\<exists>cs. calls s' = calls s @ cs)
    \<and> ((timers s' = timers s \<and> nextTimer s' = nextTimer s)
        \<or> (timers s' = timers s @ [(nextTimer s, 500, BirdTimeout cb)]
            \<and> nextTimer s' = Suc (nextTimer s)))"
  using assms
  by (cases ty) (auto simp: branch_defs emit_def Let_def setTimeout_def split: option.splits)

lemma playBranch_sources:
  assumes "playBranch ty f cb seed m s = Inr (i, s')"
  shows "\<forall>n \<in> set (sources i). started n (calls s')"
  using assms
  by (cases ty)
     (auto simp: branch_defs emit_def Let_def setTimeout_def createSource_def noiseSource_def
        fadeInOut_def split: option.splits)


lemma internalStop_frame:
  assumes "internalStop i s = Inr s'"
  shows "activeSounds s' = activeSounds s \<and> extends s s' \<and> masterGain s' = masterGain s
    \<and> ctx s' = ctx s \<and> tinnitusOsc s' = tinnitusOsc s \<and> tinnitusGain s' = tinnitusGain s
    \<and> pianoTimeout s' = pianoTimeout s \<and> timers s' = timers s \<and> nextTimer s' = nextTimer s
    \<and> now s' = now s"
  using assms
  by (cases i)
     (auto simp: currentTime_def stopAt_def andThen_def emit_def extends_def
        split: if_splits sum.splits)

lemma play_result:
  assumes "graph_ok s" and "playInteractionSound ty f cb seed s = Inr (h, s1)"
  shows "\<exists>i. h = StopFn ty i \<and> ctx s1 \<and> (\<forall>n \<in> set (sources i). started n (calls s1))
           \<and> extends s s1 \<and> activeSounds s1 = insert ty (activeSounds s) \<and> graph_ok s1"
proof -
  obtain m where m: "masterGain (init s) = Some m"
    using init_master [OF assms(1)] by auto
  let ?u = "updateRainDynamics ((init s)\<lparr>activeSounds := insert ty (activeSounds (init s))\<rparr>)"
  from assms(2) m obtain i where
    b: "playBranch ty f cb seed m ?u = Inr (i, s1)" and h: "h = StopFn ty i"
    by (auto simp: playInteractionSound_def Let_def andThen_def split: sum.splits)
  note fr = playBranch_frame [OF b]
  have e1: "extends s ?u"
    using init_extends [of s]
    by (auto simp: extends_def updateRainDynamics_def emit_def Let_def split: option.splits)
  have e2: "extends ?u s1" using fr by (auto simp: extends_def)
  have "graph_ok s1" using fr m by (simp add: graph_ok_def)
  moreover have "ctx s1" using fr by simp
  moreover have "activeSounds s1 = insert ty (activeSounds s)" using fr by simp
  ultimately show ?thesis
    using h playBranch_sources [OF b] extends_trans [OF e1 e2] by blast
qed

lemma stopTone_frame:
  assumes "stopTinnitusTone s = Inr s'"
  shows "extends s s' \<and> ctx s' = ctx s \<and> masterGain s' = masterGain s
    \<and> activeSounds s' = activeSounds s \<and> pianoTimeout s' = pianoTimeout s
    \<and> timers s' = timers s \<and> nextTimer s' = nextTimer s \<and> tinnitusOsc s' = None
    \<and> tinnitusGain s' = tinnitusGain s"
  using assms
  by (auto simp: stopTinnitusTone_def Let_def currentTime_def stopAt_def andThen_def emit_def
        extends_def split: option.splits if_splits)

lemma startTone_frame:
  assumes "startTinnitusTone f v s = Inr s'"
  shows "extends s s' \<and> ctx s' \<and> (graph_ok s \<longrightarrow> graph_ok s')
    \<and> activeSounds s' = activeSounds s \<and> pianoTimeout s' = pianoTimeout s
    \<and> timers s' = timers s \<and> nextTimer s' = nextTimer s"
proof -
  have e0: "extends s (init s)" by (rule init_extends)
  show ?thesis
  proof (cases "masterGain (init s)")
    case None
    with assms have "s' = init s" by (simp add: startTinnitusTone_def Let_def)
    moreover have "\<not> graph_ok s" using None init_master [of s] by auto
    ultimately show ?thesis using e0 by simp
  next
    case (Some m)
    with assms obtain s1 where
      s1: "(if tinnitusOsc (init s) \<noteq> None then stopTinnitusTone (init s) else Inr (init s)) = Inr s1"
      and s': "s' = (emit [CreateOscillator (fresh s1), CreateGain (Suc (fresh s1)),
                        SetWave (fresh s1) Sine,
                        SetValueAtTime (fresh s1) Frequency f (now s1),
                        SetValueAtTime (Suc (fresh s1)) Gain 0 (now s1),
                        LinearRamp (Suc (fresh s1)) Gain v (now s1 + 0.1),
                        Connect (fresh s1) (ToNode (Suc (fresh s1))),
                        Connect (Suc (fresh s1)) (ToNode m),
                        Start (fresh s1) 0] s1)
                   \<lparr>tinnitusOsc := Some (fresh s1), tinnitusGain := Some (Suc (fresh s1)),
                    fresh := fresh s1 + 2\<rparr>"
      by (auto simp: startTinnitusTone_def Let_def andThen_def split: sum.splits)
    have f1: "extends (init s) s1 \<and> ctx s1 = ctx (init s) \<and> masterGain s1 = masterGain (init s)
      \<and> activeSounds s1 = activeSounds (init s) \<and> pianoTimeout s1 = pianoTimeout (init s)
      \<and> timers s1 = timers (init s) \<and> nextTimer s1 = nextTimer (init s)"
      using s1 stopTone_frame [of "init s" s1] by (auto split: if_splits)
    have "extends s1 s'" using s' f1 by (simp add: extends_def emit_def)
    with f1 e0 have "extends s s'" by (blast intro: extends_trans)
    then show ?thesis using f1 s' Some by (simp add: emit_def graph_ok_def)
  qed
qed

lemma updateTone_fields [simp]:
  "ctx (updateTinnitusFreq f s) = ctx s"
  "masterGain (updateTinnitusFreq f s) = masterGain s"
  "tinnitusOsc (updateTinnitusFreq f s) = tinnitusOsc s"
  "tinnitusGain (updateTinnitusFreq f s) = tinnitusGain s"
  "activeSounds (updateTinnitusFreq f s) = activeSounds s"
  "pianoTimeout (updateTinnitusFreq f s) = pianoTimeout s"
  "timers (updateTinnitusFreq f s) = timers s"
  "nextTimer (updateTinnitusFreq f s) = nextTimer s"
  by (simp_all add: updateTinnitusFreq_def emit_def split: option.splits)

lemma updateTone_extends: "extends s (updateTinnitusFreq f s)"
  by (auto simp: updateTinnitusFreq_def emit_def extends_def split: option.splits)

lemma startDrone_frame:
  "extends s (startDrone s) \<and> (ctx s \<longrightarrow> masterGain (startDrone s) = masterGain s)
   \<and> (graph_ok s \<longrightarrow> graph_ok (startDrone s))
   \<and> activeSounds (startDrone s) = activeSounds s
   \<and> tinnitusOsc (startDrone s) = tinnitusOsc s
   \<and> pianoTimeout (startDrone s) = pianoTimeout s
   \<and> timers (startDrone s) = timers s \<and> nextTimer (startDrone s) = nextTimer s"
  using init_extends [of s] init_master [of s]
  by (auto simp: startDrone_def Let_def emit_def extends_def graph_ok_def init_def
        split: option.splits)

lemma stopDrone_frame:
  "extends s (stopDrone s) \<and> ctx (stopDrone s) = ctx s \<and> masterGain (stopDrone s) = masterGain s
   \<and> activeSounds (stopDrone s) = activeSounds s
   \<and> tinnitusOsc (stopDrone s) = tinnitusOsc s
   \<and> pianoTimeout (stopDrone s) = pianoTimeout s
   \<and> ((timers (stopDrone s) = timers s \<and> nextTimer (stopDrone s) = nextTimer s)
       \<or> (timers (stopDrone s) = timers s @ [(nextTimer s, 1600, DroneTeardown (droneNodes s))]
           \<and> nextTimer (stopDrone s) = Suc (nextTimer s)))"
  by (auto simp: stopDrone_def Let_def emit_def extends_def setTimeout_def split: list.splits)

lemma teardown_frame:
  "extends s (teardown ns s) \<and> ctx (teardown ns s) = ctx s
   \<and> masterGain (teardown ns s) = masterGain s
   \<and> activeSounds (teardown ns s) = activeSounds s
   \<and> tinnitusOsc (teardown ns s) = tinnitusOsc s
   \<and> pianoTimeout (teardown ns s) = pianoTimeout s
   \<and> timers (teardown ns s) = timers s \<and> nextTimer (teardown ns s) = nextTimer s"
proof (induction ns arbitrary: s)
  case Nil
  show ?case by simp
next
  case (Cons n ns)
  let ?s1 = "emit ((if is_source n (calls s) \<and> started n (calls s) then [Stop n 0] else [])
                   @ [Disconnect n]) s"
  have "extends s ?s1" by (simp add: extends_def emit_def)
  with Cons [of ?s1] show ?case
    by (auto simp: emit_def intro: extends_trans)
qed

lemma playNext_frame:
  "extends s (playNextPianoNote seeds s) \<and> ctx (playNextPianoNote seeds s) = ctx s
   \<and> masterGain (playNextPianoNote seeds s) = masterGain s
   \<and> activeSounds (playNextPianoNote seeds s) = activeSounds s
   \<and> tinnitusOsc (playNextPianoNote seeds s) = tinnitusOsc s"
  by (auto simp: playNextPianoNote_def Let_def emit_def extends_def setTimeout_def
        split: option.splits prod.splits)

lemma clearTimeout_fields [simp]:
  "ctx (clearTimeout h s) = ctx s"
  "masterGain (clearTimeout h s) = masterGain s"
  "activeSounds (clearTimeout h s) = activeSounds s"
  "tinnitusOsc (clearTimeout h s) = tinnitusOsc s"
  "pianoTimeout (clearTimeout h s) = pianoTimeout s"
  "calls (clearTimeout h s) = calls s"
  "nextTimer (clearTimeout h s) = nextTimer s"
  "rainGainNode (clearTimeout h s) = rainGainNode s"
  "now (clearTimeout h s) = now s"
  by (simp_all add: clearTimeout_def)

lemma dropHandler_fields [simp]:
  "ctx (dropHandler n s) = ctx s"
  "masterGain (dropHandler n s) = masterGain s"
  "activeSounds (dropHandler n s) = activeSounds s"
  "tinnitusOsc (dropHandler n s) = tinnitusOsc s"
  "pianoTimeout (dropHandler n s) = pianoTimeout s"
  "calls (dropHandler n s) = calls s"
  "timers (dropHandler n s) = timers s"
  "nextTimer (dropHandler n s) = nextTimer s"
  "rainGainNode (dropHandler n s) = rainGainNode s"
  "now (dropHandler n s) = now s"
  by (simp_all add: dropHandler_def)

lemma birdDone_frame:
  "extends s (birdDone cb s) \<and> ctx (birdDone cb s) = ctx s
   \<and> masterGain (birdDone cb s) = masterGain s
   \<and> activeSounds (birdDone cb s) = activeSounds s - {BIRD}
   \<and> tinnitusOsc (birdDone cb s) = tinnitusOsc s
   \<and> pianoTimeout (birdDone cb s) = pianoTimeout s
   \<and> timers (birdDone cb s) = timers s \<and> nextTimer (birdDone cb s) = nextTimer s"
  by (auto simp: birdDone_def Let_def extends_def updateRainDynamics_def emit_def
        split: option.splits)

lemma togglePiano_frame:
  "extends s (togglePiano b seeds s) \<and> (ctx s \<longrightarrow> masterGain (togglePiano b seeds s) = masterGain s)
   \<and> (graph_ok s \<longrightarrow> graph_ok (togglePiano b seeds s))
   \<and> activeSounds (togglePiano b seeds s) = activeSounds s
   \<and> tinnitusOsc (togglePiano b seeds s) = tinnitusOsc s"
proof -
  have a: "extends s (playNextPianoNote seeds (init s))"
    using init_extends [of s] playNext_frame [of "init s" seeds] by (blast intro: extends_trans)
  have b: "graph_ok s \<Longrightarrow> graph_ok (playNextPianoNote seeds (init s))"
    using playNext_frame [of "init s" seeds] init_master [of s] by (simp add: graph_ok_def)
  have c: "ctx s \<Longrightarrow> masterGain (init s) = masterGain s"
    by (simp add: init_def emit_def Let_def)
  show ?thesis
    using a b c playNext_frame [of "init s" seeds]
    by (auto simp: togglePiano_def startPiano_def stopPiano_def clearTimeout_def extends_def
          graph_ok_def split: option.splits)
qed

lemma load_frame:
  "extends s (loadAmbientTrack fetched s) \<and> (graph_ok s \<longrightarrow> graph_ok (loadAmbientTrack fetched s))
   \<and> activeSounds (loadAmbientTrack fetched s) = activeSounds s"
  using init_extends [of s] init_master [of s]
  by (auto simp: loadAmbientTrack_def Let_def extends_def graph_ok_def)

lemma callStop_frame:
  assumes "callStop h s = Inr s'"
  shows "extends s s' \<and> ctx s' = ctx s \<and> masterGain s' = masterGain s
    \<and> activeSounds s' = (case h of Inert \<Rightarrow> activeSounds s | StopFn ty i \<Rightarrow> activeSounds s - {ty})"
proof (cases h)
  case Inert
  with assms show ?thesis by simp
next
  case (StopFn ty i)
  with assms obtain s1 where i: "internalStop i s = Inr s1"
    and s': "s' = updateRainDynamics (s1\<lparr>activeSounds := activeSounds s1 - {ty}\<rparr>)"
    by (auto simp: andThen_def split: sum.splits)
  note fr = internalStop_frame [OF i]
  have "extends s1 s'"
    unfolding s' by (auto simp: extends_def updateRainDynamics_def emit_def split: option.splits)
  with fr have "extends s s'" by (blast intro: extends_trans)
  then show ?thesis using fr s' StopFn by simp
qed

lemma exec_Init:
  assumes "exec (Init) s = Inr s'"
  shows "extends s s' \<and> (graph_ok s \<longrightarrow> graph_ok s')
    \<and> (graph_ok s \<longrightarrow> (X \<in> activeSounds s') = after_event X (Init) (X \<in> activeSounds s))"
  using assms init_extends [of s] init_master [of s] by (auto simp: graph_ok_def)

lemma exec_Load:
  assumes "exec (Load fetched) s = Inr s'"
  shows "extends s s' \<and> (graph_ok s \<longrightarrow> graph_ok s')
    \<and> (graph_ok s \<longrightarrow> (X \<in> activeSounds s') = after_event X (Load fetched) (X \<in> activeSounds s))"
  using assms load_frame [of s fetched] by auto

lemma exec_StartTone:
  assumes "exec (StartTone f v) s = Inr s'"
  shows "extends s s' \<and> (graph_ok s \<longrightarrow> graph_ok s')
    \<and> (graph_ok s \<longrightarrow> (X \<in> activeSounds s') = after_event X (StartTone f v) (X \<in> activeSounds s))"
  using assms startTone_frame [of f v s s'] by auto

lemma exec_UpdateTone:
  assumes "exec (UpdateTone f) s = Inr s'"
  shows "extends s s' \<and> (graph_ok s \<longrightarrow> graph_ok s')
    \<and> (graph_ok s \<longrightarrow> (X \<in> activeSounds s') = after_event X (UpdateTone f) (X \<in> activeSounds s))"
  using assms updateTone_extends [of s f] by (auto simp: graph_ok_def)

lemma exec_StopTone:
  assumes "exec (StopTone) s = Inr s'"
  shows "extends s s' \<and> (graph_ok s \<longrightarrow> graph_ok s')
    \<and> (graph_ok s \<longrightarrow> (X \<in> activeSounds s') = after_event X (StopTone) (X \<in> activeSounds s))"
  using assms stopTone_frame [of s s'] by (auto simp: graph_ok_def)

lemma exec_StartAmbient:
  assumes "exec (StartAmbient f) s = Inr s'"
  shows "extends s s' \<and> (graph_ok s \<longrightarrow> graph_ok s')
    \<and> (graph_ok s \<longrightarrow> (X \<in> activeSounds s') = after_event X (StartAmbient f) (X \<in> activeSounds s))"
  using assms init_extends [of s] init_master [of s]
  by (auto simp: graph_ok_def startAmbientTrack_def)

lemma exec_CallStop:
  assumes "exec (CallStop h) s = Inr s'"
  shows "extends s s' \<and> (graph_ok s \<longrightarrow> graph_ok s')
    \<and> (graph_ok s \<longrightarrow> (X \<in> activeSounds s') = after_event X (CallStop h) (X \<in> activeSounds s))"
  using assms callStop_frame [of h s s']
  by (cases h) (auto simp: graph_ok_def)

lemma exec_ToggleDrone:
  assumes "exec (ToggleDrone b) s = Inr s'"
  shows "extends s s' \<and> (graph_ok s \<longrightarrow> graph_ok s')
    \<and> (graph_ok s \<longrightarrow> (X \<in> activeSounds s') = after_event X (ToggleDrone b) (X \<in> activeSounds s))"
proof (cases b)
  case True
  with assms have "s' = startDrone s" by (simp add: toggleDrone_def)
  then show ?thesis using startDrone_frame [of s] by simp
next
  case False
  with assms have s': "s' = stopDrone s" by (simp add: toggleDrone_def)
  have "extends s s'" "ctx s' = ctx s" "masterGain s' = masterGain s"
    "activeSounds s' = activeSounds s"
    using stopDrone_frame [of s] unfolding s' by blast+
  then show ?thesis by (simp add: graph_ok_def)
qed

lemma exec_TogglePiano:
  assumes "exec (TogglePiano b seeds) s = Inr s'"
  shows "extends s s' \<and> (graph_ok s \<longrightarrow> graph_ok s')
    \<and> (graph_ok s \<longrightarrow> (X \<in> activeSounds s') = after_event X (TogglePiano b seeds) (X \<in> activeSounds s))"
proof -
  from assms have s': "s' = togglePiano b seeds s" by simp
  have "extends s s'" "graph_ok s \<longrightarrow> graph_ok s'" "activeSounds s' = activeSounds s"
    using togglePiano_frame [of s b seeds] unfolding s' by blast+
  then show ?thesis by simp
qed

lemma exec_Play:
  assumes "exec (Play ty f cb seed) s = Inr s'"
  shows "extends s s' \<and> (graph_ok s \<longrightarrow> graph_ok s')
    \<and> (graph_ok s \<longrightarrow> (X \<in> activeSounds s') = after_event X (Play ty f cb seed) (X \<in> activeSounds s))"
proof -
  from assms obtain h where p: "playInteractionSound ty f cb seed s = Inr (h, s')"
    by (auto simp: andThen_def split: sum.splits)
  have e: "extends s s'"
  proof (cases "masterGain (init s)")
    case None
    with p init_extends [of s] show ?thesis by (simp add: playInteractionSound_def Let_def)
  next
    case (Some m)
    let ?u = "updateRainDynamics ((init s)\<lparr>activeSounds := insert ty (activeSounds (init s))\<rparr>)"
    from p Some obtain i where b: "playBranch ty f cb seed m ?u = Inr (i, s')"
      by (auto simp: playInteractionSound_def Let_def andThen_def split: sum.splits)
    have e1: "extends s ?u"
      using init_extends [of s]
      by (auto simp: extends_def updateRainDynamics_def emit_def Let_def split: option.splits)
    have "extends ?u s'" using playBranch_frame [OF b] by (auto simp: extends_def)
    with e1 show ?thesis by (blast intro: extends_trans)
  qed
  have "graph_ok s \<longrightarrow> graph_ok s' \<and> activeSounds s' = insert ty (activeSounds s)"
    using play_result [OF _ p] by blast
  with e show ?thesis by auto
qed

lemma exec_PianoTimer:
  assumes "exec (PianoTimer h seeds) s = Inr s'"
  shows "extends s s' \<and> (graph_ok s \<longrightarrow> graph_ok s')
    \<and> (graph_ok s \<longrightarrow> (X \<in> activeSounds s') = after_event X (PianoTimer h seeds) (X \<in> activeSounds s))"
proof -
  from assms have s': "s' = playNextPianoNote seeds (clearTimeout h s)"
    by (auto split: option.splits callback.splits)
  have "extends (clearTimeout h s) s'" "ctx s' = ctx s" "masterGain s' = masterGain s"
    "activeSounds s' = activeSounds s"
    using playNext_frame [of "clearTimeout h s" seeds] unfolding s' by simp_all
  then show ?thesis by (simp add: graph_ok_def extends_def)
qed

lemma exec_DroneTimer:
  assumes "exec (DroneTimer h) s = Inr s'"
  shows "extends s s' \<and> (graph_ok s \<longrightarrow> graph_ok s')
    \<and> (graph_ok s \<longrightarrow> (X \<in> activeSounds s') = after_event X (DroneTimer h) (X \<in> activeSounds s))"
proof -
  from assms obtain ns where s': "s' = teardown ns (clearTimeout h s)"
    by (auto split: option.splits callback.splits)
  have "extends (clearTimeout h s) s'" "ctx s' = ctx s" "masterGain s' = masterGain s"
    "activeSounds s' = activeSounds s"
    using teardown_frame [of "clearTimeout h s" ns] unfolding s' by simp_all
  then show ?thesis by (simp add: graph_ok_def extends_def)
qed

lemma exec_BirdTimer:
  assumes "exec (BirdTimer h) s = Inr s'"
  shows "extends s s' \<and> (graph_ok s \<longrightarrow> graph_ok s')
    \<and> (graph_ok s \<longrightarrow> (X \<in> activeSounds s') = after_event X (BirdTimer h) (X \<in> activeSounds s))"
proof -
  from assms obtain cb where s': "s' = birdDone cb (clearTimeout h s)"
    by (auto split: option.splits callback.splits)
  have "extends (clearTimeout h s) s'" "ctx s' = ctx s" "masterGain s' = masterGain s"
    "activeSounds s' = activeSounds s - {BIRD}"
    using birdDone_frame [of "clearTimeout h s" cb] unfolding s' by simp_all
  then show ?thesis by (auto simp: graph_ok_def extends_def)
qed

lemma exec_BirdSourceEnded:
  assumes "exec (BirdSourceEnded n) s = Inr s'"
  shows "extends s s' \<and> (graph_ok s \<longrightarrow> graph_ok s')
    \<and> (graph_ok s \<longrightarrow> (X \<in> activeSounds s') = after_event X (BirdSourceEnded n) (X \<in> activeSounds s))"
proof -
  from assms obtain cb where s': "s' = birdDone cb (dropHandler n s)"
    by (auto split: option.splits handler.splits)
  have "extends (dropHandler n s) s'" "ctx s' = ctx s" "masterGain s' = masterGain s"
    "activeSounds s' = activeSounds s - {BIRD}"
    using birdDone_frame [of "dropHandler n s" cb] unfolding s' by simp_all
  then show ?thesis by (auto simp: graph_ok_def extends_def)
qed

lemma exec_NoteEnded:
  assumes "exec (NoteEnded n) s = Inr s'"
  shows "extends s s' \<and> (graph_ok s \<longrightarrow> graph_ok s')
    \<and> (graph_ok s \<longrightarrow> (X \<in> activeSounds s') = after_event X (NoteEnded n) (X \<in> activeSounds s))"
proof -
  from assms obtain flt gain where
    s': "s' = emit [Disconnect n, Disconnect flt, Disconnect gain] (dropHandler n s)"
    by (auto split: option.splits handler.splits)
  show ?thesis unfolding s' by (simp add: graph_ok_def extends_def emit_def)
qed

lemma exec_Advance:
  assumes "exec (Advance d) s = Inr s'"
  shows "extends s s' \<and> (graph_ok s \<longrightarrow> graph_ok s')
    \<and> (graph_ok s \<longrightarrow> (X \<in> activeSounds s') = after_event X (Advance d) (X \<in> activeSounds s))"
proof -
  from assms have s': "s' = s\<lparr>now := now s + d\<rparr>" by (auto split: if_splits)
  show ?thesis unfolding s' by (simp add: graph_ok_def extends_def)
qed

lemma exec_step:
  assumes "exec a s = Inr s'"
  shows "extends s s' \<and> (graph_ok s \<longrightarrow> graph_ok s')
    \<and> (graph_ok s \<longrightarrow> (X \<in> activeSounds s') = after_event X a (X \<in> activeSounds s))"
proof (cases a)
  case Init from assms show ?thesis unfolding Init by (rule exec_Init)
next
  case Load from assms show ?thesis unfolding Load by (rule exec_Load)
next
  case StartTone from assms show ?thesis unfolding StartTone by (rule exec_StartTone)
next
  case UpdateTone from assms show ?thesis unfolding UpdateTone by (rule exec_UpdateTone)
next
  case StopTone from assms show ?thesis unfolding StopTone by (rule exec_StopTone)
next
  case StartAmbient from assms show ?thesis unfolding StartAmbient by (rule exec_StartAmbient)
next
  case ToggleDrone from assms show ?thesis unfolding ToggleDrone by (rule exec_ToggleDrone)
next
  case TogglePiano from assms show ?thesis unfolding TogglePiano by (rule exec_TogglePiano)
next
  case Play from assms show ?thesis unfolding Play by (rule exec_Play)
next
  case CallStop from assms show ?thesis unfolding CallStop by (rule exec_CallStop)
next
  case PianoTimer from assms show ?thesis unfolding PianoTimer by (rule exec_PianoTimer)
next
  case DroneTimer from assms show ?thesis unfolding DroneTimer by (rule exec_DroneTimer)
next
  case BirdTimer from assms show ?thesis unfolding BirdTimer by (rule exec_BirdTimer)
next
  case BirdSourceEnded from assms show ?thesis unfolding BirdSourceEnded by (rule exec_BirdSourceEnded)
next
  case NoteEnded from assms show ?thesis unfolding NoteEnded by (rule exec_NoteEnded)
next
  case Advance from assms show ?thesis unfolding Advance by (rule exec_Advance)
qed

lemma run_Cons:
  "run (a # as) s = Inr s' \<Longrightarrow> \<exists>s1. exec a s = Inr s1 \<and> run as s1 = Inr s'"
  by (cases "exec a s") (simp_all add: andThen_def)


text \<open>The equations that evaluate the engine on a concrete state.\<close>

lemmas eval_defs =
  initial_def init_def emit_def Let_def andThen_def playInteractionSound_def
  playBIRD_def playLEAVES_def playWIND_def playWATER_def playRAIN_def playINSECT_def
  updateRainDynamics_def othersPlaying_def fadeInOut_def noiseSource_def createSource_def
  calculatePitch_def currentTime_def stopAt_def setTimeout_def clearTimeout_def
  birdDone_def dropHandler_def graph_ok_def sounding_def

lemma map_filter_append:
  "List.map_filter f (xs @ ys) = List.map_filter f xs @ List.map_filter f ys"
  by (simp add: List.map_filter_def)

lemma init_calls: "\<exists>cs. calls (init s) = calls s @ cs \<and> List.map_filter (frequency_set n) cs = []"
  by (simp add: init_def emit_def Let_def List.map_filter_simps)


lemma init_twice: "init ((init s)\<lparr>now := t\<rparr>) = (init s)\<lparr>now := t\<rparr>"
  by (simp add: init_def emit_def Let_def)

lemma init_calls_osc:
  "\<exists>cs. calls (init s) = calls s @ cs \<and> filter creates_oscillator cs = []"
  by (simp add: init_def emit_def Let_def)

lemma startDrone_again:
  "startDrone ((startDrone s)\<lparr>now := t\<rparr>) = (startDrone s)\<lparr>now := t\<rparr>"
proof (cases "droneNodes s = []")
  case False
  then show ?thesis by (simp add: startDrone_def)
next
  case True
  show ?thesis
  proof (cases "masterGain (init s)")
    case None
    with True have "startDrone s = init s" by (simp add: startDrone_def Let_def)
    with None True init_twice [where s = s and t = t] show ?thesis by (simp add: startDrone_def Let_def)
  next
    case (Some m)
    with True have "droneNodes (startDrone s) \<noteq> []"
      by (simp add: startDrone_def Let_def emit_def)
    then show ?thesis by (simp add: startDrone_def)
  qed
qed

section \<open>The invariants of the tone and of the sequencer\<close>

lemma filter_other_timer:
  assumes "distinct (map fst ts)" and "map_of ts h = Some (d, cb)" and "cb \<noteq> PianoNext"
  shows "filter (\<lambda>e. snd (snd e) = PianoNext) (filter (\<lambda>e. fst e \<noteq> h) ts)
           = filter (\<lambda>e. snd (snd e) = PianoNext) ts"
  using assms
proof (induction ts)
  case Nil
  then show ?case by simp
next
  case (Cons e ts)
  show ?case
  proof (cases "fst e = h")
    case True
    with Cons.prems have e: "snd e = (d, cb)" by (cases e) simp
    from True Cons.prems(1) have "h \<notin> fst ` set ts" by simp
    then have "filter (\<lambda>e. fst e \<noteq> h) ts = ts"
      by (induction ts) auto
    with True e Cons.prems(3) show ?thesis by simp
  next
    case False
    with Cons.prems have "map_of ts h = Some (d, cb)" by (cases e) (simp split: if_splits)
    with Cons.IH Cons.prems False show ?thesis by simp
  qed
qed

lemma seq_change:
  assumes "sequencer_ok s" and "timer_change s s'" and "pianoTimeout s' = pianoTimeout s"
    and "ctx s \<longrightarrow> ctx s' \<and> masterGain s' = masterGain s"
  shows "sequencer_ok s'"
proof -
  from assms(1) have
    p: "pianoTimers s = (case pianoTimeout s of None \<Rightarrow> [] | Some h \<Rightarrow> [h])"
    and c: "\<forall>h. pianoTimeout s = Some h \<longrightarrow> h \<noteq> 0 \<and> ctx s \<and> masterGain s \<noteq> None"
    and b: "\<forall>e \<in> set (timers s). fst e < nextTimer s"
    and z: "0 < nextTimer s" and d: "distinct (map fst (timers s))"
    by (simp_all add: sequencer_ok_def)
  have c': "\<forall>h. pianoTimeout s' = Some h \<longrightarrow> h \<noteq> 0 \<and> ctx s' \<and> masterGain s' \<noteq> None"
    using c assms(3,4) by simp
  from assms(2) consider
    (same) "timers s' = timers s" "nextTimer s' = nextTimer s"
    | (add) dl cb where "cb \<noteq> PianoNext" "timers s' = timers s @ [(nextTimer s, dl, cb)]"
        "nextTimer s' = Suc (nextTimer s)"
    | (fire) h dl cb where "cb \<noteq> PianoNext" "map_of (timers s) h = Some (dl, cb)"
        "timers s' = filter (\<lambda>e. fst e \<noteq> h) (timers s)" "nextTimer s' = nextTimer s"
    unfolding timer_change_def by blast
  then show ?thesis
  proof cases
    case same
    with p c' b z d assms(3) show ?thesis by (simp add: sequencer_ok_def pianoTimers_def)
  next
    case add
    have "nextTimer s \<notin> fst ` set (timers s)" using b by auto
    with add p c' b z d assms(3) show ?thesis
      by (auto simp: sequencer_ok_def pianoTimers_def less_Suc_eq)
  next
    case fire
    have "pianoTimers s' = pianoTimers s"
      unfolding pianoTimers_def fire(3) using filter_other_timer [OF d fire(2,1)] by simp
    moreover have "distinct (map fst (timers s'))"
      unfolding fire(3) using d by (simp add: distinct_map_filter)
    ultimately show ?thesis
      using fire p c' b z assms(3) by (simp add: sequencer_ok_def)
  qed
qed

lemma init_keep: "ctx s \<Longrightarrow> masterGain (init s) = masterGain s"
  by (simp add: init_def emit_def Let_def)

lemma timer_change_refl: "timers s' = timers s \<Longrightarrow> nextTimer s' = nextTimer s \<Longrightarrow> timer_change s s'"
  by (simp add: timer_change_def)

lemma load_fields:
  "tinnitusOsc (loadAmbientTrack fetched s) = tinnitusOsc s"
  "tinnitusGain (loadAmbientTrack fetched s) = tinnitusGain s"
  "pianoTimeout (loadAmbientTrack fetched s) = pianoTimeout s"
  "timers (loadAmbientTrack fetched s) = timers s"
  "nextTimer (loadAmbientTrack fetched s) = nextTimer s"
  "ctx s \<Longrightarrow> masterGain (loadAmbientTrack fetched s) = masterGain s"
  by (simp_all add: loadAmbientTrack_def Let_def init_keep)

lemma startDrone_fields:
  "tinnitusOsc (startDrone s) = tinnitusOsc s"
  "tinnitusGain (startDrone s) = tinnitusGain s"
  "pianoTimeout (startDrone s) = pianoTimeout s"
  "timers (startDrone s) = timers s"
  "nextTimer (startDrone s) = nextTimer s"
  "ctx s \<Longrightarrow> masterGain (startDrone s) = masterGain s"
  by (simp_all add: startDrone_def Let_def emit_def init_keep split: option.splits)

lemma stopDrone_fields:
  "tinnitusOsc (stopDrone s) = tinnitusOsc s"
  "tinnitusGain (stopDrone s) = tinnitusGain s"
  "pianoTimeout (stopDrone s) = pianoTimeout s"
  "masterGain (stopDrone s) = masterGain s"
  "timer_change s (stopDrone s)"
  by (simp_all add: stopDrone_def Let_def emit_def setTimeout_def timer_change_def
        split: list.splits)

lemma teardown_fields:
  "tinnitusOsc (teardown ns s) = tinnitusOsc s"
  "tinnitusGain (teardown ns s) = tinnitusGain s"
  "pianoTimeout (teardown ns s) = pianoTimeout s"
  "masterGain (teardown ns s) = masterGain s"
  "timers (teardown ns s) = timers s"
  "nextTimer (teardown ns s) = nextTimer s"
  by (induction ns arbitrary: s; simp add: emit_def)+

lemma birdDone_fields:
  "tinnitusOsc (birdDone cb s) = tinnitusOsc s"
  "tinnitusGain (birdDone cb s) = tinnitusGain s"
  "pianoTimeout (birdDone cb s) = pianoTimeout s"
  "masterGain (birdDone cb s) = masterGain s"
  "timers (birdDone cb s) = timers s"
  "nextTimer (birdDone cb s) = nextTimer s"
  by (simp_all add: birdDone_def Let_def)

lemma playNext_fields:
  "tinnitusOsc (playNextPianoNote seeds s) = tinnitusOsc s"
  "tinnitusGain (playNextPianoNote seeds s) = tinnitusGain s"
  "masterGain (playNextPianoNote seeds s) = masterGain s"
  by (simp_all add: playNextPianoNote_def Let_def emit_def setTimeout_def
        split: option.splits prod.splits)

lemma togglePiano_fields:
  "tinnitusOsc (togglePiano b seeds s) = tinnitusOsc s"
  "tinnitusGain (togglePiano b seeds s) = tinnitusGain s"
  "ctx s \<Longrightarrow> masterGain (togglePiano b seeds s) = masterGain s"
  by (simp_all add: togglePiano_def startPiano_def stopPiano_def playNext_fields init_keep
        clearTimeout_def split: option.splits)

lemma callStop_fields:
  assumes "callStop h s = Inr s'"
  shows "tinnitusOsc s' = tinnitusOsc s \<and> tinnitusGain s' = tinnitusGain s
    \<and> pianoTimeout s' = pianoTimeout s \<and> masterGain s' = masterGain s
    \<and> timers s' = timers s \<and> nextTimer s' = nextTimer s"
proof (cases h)
  case Inert
  with assms show ?thesis by simp
next
  case (StopFn ty i)
  with assms obtain s1 where i: "internalStop i s = Inr s1"
    and s': "s' = updateRainDynamics (s1\<lparr>activeSounds := activeSounds s1 - {ty}\<rparr>)"
    by (auto simp: andThen_def split: sum.splits)
  from internalStop_frame [OF i] show ?thesis unfolding s' by simp
qed

lemma play_fields:
  assumes "playInteractionSound ty f cb seed s = Inr (h, s')"
  shows "tinnitusOsc s' = tinnitusOsc s \<and> tinnitusGain s' = tinnitusGain s
    \<and> pianoTimeout s' = pianoTimeout s \<and> (ctx s \<longrightarrow> masterGain s' = masterGain s)
    \<and> timer_change s s'"
proof (cases "masterGain (init s)")
  case None
  with assms have "s' = init s" by (simp add: playInteractionSound_def Let_def)
  then show ?thesis by (simp add: init_keep timer_change_def)
next
  case (Some m)
  let ?u = "updateRainDynamics ((init s)\<lparr>activeSounds := insert ty (activeSounds (init s))\<rparr>)"
  from assms Some obtain i where b: "playBranch ty f cb seed m ?u = Inr (i, s')"
    by (auto simp: playInteractionSound_def Let_def andThen_def split: sum.splits)
  from playBranch_frame [OF b] have
    f: "masterGain s' = masterGain ?u" "tinnitusOsc s' = tinnitusOsc ?u"
       "tinnitusGain s' = tinnitusGain ?u" "pianoTimeout s' = pianoTimeout ?u"
    and t: "(timers s' = timers ?u \<and> nextTimer s' = nextTimer ?u)
            \<or> (timers s' = timers ?u @ [(nextTimer ?u, 500, BirdTimeout cb)]
                \<and> nextTimer s' = Suc (nextTimer ?u))"
    by blast+
  from t have "timer_change s s'" by (auto simp: timer_change_def)
  with f show ?thesis by (simp add: init_keep)
qed

lemma stopTone_fields:
  assumes "stopTinnitusTone s = Inr s'"
  shows "pianoTimeout s' = pianoTimeout s \<and> masterGain s' = masterGain s
    \<and> timers s' = timers s \<and> nextTimer s' = nextTimer s"
  using stopTone_frame [OF assms] by simp

lemma startTone_fields:
  assumes "startTinnitusTone f v s = Inr s'"
  shows "pianoTimeout s' = pianoTimeout s \<and> (ctx s \<longrightarrow> masterGain s' = masterGain s)
    \<and> timers s' = timers s \<and> nextTimer s' = nextTimer s"
proof (cases "masterGain (init s)")
  case None
  with assms have "s' = init s" by (simp add: startTinnitusTone_def Let_def)
  then show ?thesis by (simp add: init_keep)
next
  case (Some m)
  with assms obtain s1 where
    s1: "(if tinnitusOsc (init s) \<noteq> None then stopTinnitusTone (init s) else Inr (init s)) = Inr s1"
    and m': "masterGain s' = masterGain s1"
    by (auto simp: startTinnitusTone_def Let_def andThen_def emit_def split: sum.splits)
  have "masterGain s1 = masterGain (init s)"
    using s1 stopTone_frame [of "init s" s1] by (auto split: if_splits)
  with m' startTone_frame [OF assms] show ?thesis by (simp add: init_keep)
qed

lemma tone_keep:
  assumes "tone_ok s" and "extends s s'" and "tinnitusOsc s' = tinnitusOsc s"
    and "tinnitusGain s' = tinnitusGain s"
  shows "tone_ok s'"
  using assms by (auto simp: tone_ok_def extends_def)

lemma stopTone_tone_ok:
  assumes "stopTinnitusTone s = Inr s'" and "tone_ok s"
  shows "tone_ok s'"
  using stopTone_frame [OF assms(1)] assms(2) by (simp add: tone_ok_def)

lemma startTone_shape:
  assumes "startTinnitusTone f v s = Inr s'" and "masterGain (init s) = Some m"
  shows "\<exists>n. tinnitusOsc s' = Some n \<and> tinnitusGain s' = Some (Suc n)
           \<and> started n (calls s')"
  using assms
  by (auto simp: startTinnitusTone_def Let_def andThen_def emit_def split: sum.splits)

lemma startTone_tone_ok:
  assumes "startTinnitusTone f v s = Inr s'" and "tone_ok s"
  shows "tone_ok s'"
proof (cases "masterGain (init s)")
  case None
  with assms(1) have "s' = init s" by (simp add: startTinnitusTone_def Let_def)
  with assms(2) init_extends [of s] show ?thesis by (simp add: tone_keep)
next
  case (Some m)
  from startTone_shape [OF assms(1) Some] startTone_frame [OF assms(1)]
  show ?thesis by (auto simp: tone_ok_def)
qed

lemma exec_tone_fields:
  assumes "exec a s = Inr s'" and "\<And>f v. a \<noteq> StartTone f v" and "a \<noteq> StopTone"
  shows "tinnitusOsc s' = tinnitusOsc s \<and> tinnitusGain s' = tinnitusGain s"
proof (cases a)
  case Init with assms(1) show ?thesis by auto
next
  case (Load fetched) with assms(1) show ?thesis by (auto simp: load_fields)
next
  case (StartTone f v) with assms(2) [of f v] show ?thesis by simp
next
  case (UpdateTone f) with assms(1) show ?thesis by auto
next
  case StopTone with assms(3) show ?thesis by simp
next
  case (StartAmbient f) with assms(1) show ?thesis by (auto simp: startAmbientTrack_def)
next
  case (ToggleDrone b) with assms(1) show ?thesis
    by (cases b) (auto simp: toggleDrone_def startDrone_fields stopDrone_fields)
next
  case (TogglePiano b seeds) with assms(1) show ?thesis by (auto simp: togglePiano_fields)
next
  case (Play ty f cb seed)
  with assms(1) obtain h where "playInteractionSound ty f cb seed s = Inr (h, s')"
    by (auto simp: andThen_def split: sum.splits)
  from play_fields [OF this] show ?thesis by simp
next
  case (CallStop h) with assms(1) callStop_fields [of h s s'] show ?thesis by simp
next
  case (PianoTimer h seeds) with assms(1) show ?thesis
    by (auto simp: playNext_fields clearTimeout_def split: option.splits callback.splits)
next
  case (DroneTimer h) with assms(1) show ?thesis
    by (auto simp: teardown_fields clearTimeout_def split: option.splits callback.splits)
next
  case (BirdTimer h) with assms(1) show ?thesis
    by (auto simp: birdDone_fields clearTimeout_def split: option.splits callback.splits)
next
  case (BirdSourceEnded n) with assms(1) show ?thesis
    by (auto simp: birdDone_fields dropHandler_def split: option.splits handler.splits)
next
  case (NoteEnded n) with assms(1) show ?thesis
    by (auto simp: emit_def dropHandler_def split: option.splits handler.splits)
next
  case (Advance d) with assms(1) show ?thesis by (auto split: if_splits)
qed

lemma exec_tone_ok:
  assumes "exec a s = Inr s'" and "tone_ok s"
  shows "tone_ok s'"
proof (cases "(\<exists>f v. a = StartTone f v) \<or> a = StopTone")
  case True
  with assms show ?thesis by (auto simp: startTone_tone_ok stopTone_tone_ok)
next
  case False
  with exec_tone_fields [OF assms(1)] exec_step [OF assms(1), of BIRD] assms(2)
  show ?thesis by (simp add: tone_keep)
qed

lemma run_tone_ok:
  assumes "run acts s = Inr s'" and "tone_ok s"
  shows "tone_ok s'"
  using assms
proof (induction acts arbitrary: s)
  case Nil
  then show ?case by simp
next
  case (Cons a acts)
  from run_Cons [OF Cons.prems(1)] obtain s1 where
    a: "exec a s = Inr s1" and r: "run acts s1 = Inr s'" by blast
  from Cons.IH [OF r exec_tone_ok [OF a Cons.prems(2)]] show ?case .
qed

lemma stopTone_returns:
  assumes "tone_ok s"
  shows "\<exists>s1. stopTinnitusTone s = Inr s1"
proof (cases "tinnitusOsc s")
  case None
  then show ?thesis by (simp add: stopTinnitusTone_def Let_def emit_def split: option.splits)
next
  case (Some osc)
  with assms have "ctx s" "started osc (calls s)" by (simp_all add: tone_ok_def)
  with Some show ?thesis
    by (auto simp: stopTinnitusTone_def Let_def currentTime_def stopAt_def andThen_def emit_def
          split: option.splits)
qed

lemma piano_filter:
  "map fst (filter P (filter (\<lambda>e. fst e \<noteq> h) ts)) = filter (\<lambda>i. i \<noteq> h) (map fst (filter P ts))"
  by (induction ts) auto

lemma clear_piano:
  assumes "sequencer_ok s" and "pianoTimeout s = Some h"
  shows "pianoTimers (clearTimeout h s) = []
    \<and> (\<forall>e \<in> set (timers (clearTimeout h s)). fst e < nextTimer s)
    \<and> distinct (map fst (timers (clearTimeout h s)))"
proof -
  from assms have p: "pianoTimers s = [h]" and b: "\<forall>e \<in> set (timers s). fst e < nextTimer s"
    and d: "distinct (map fst (timers s))"
    by (simp_all add: sequencer_ok_def)
  have "pianoTimers (clearTimeout h s) = filter (\<lambda>i. i \<noteq> h) (pianoTimers s)"
    by (simp add: pianoTimers_def clearTimeout_def piano_filter del: filter_filter)
  with p b d show ?thesis by (simp add: clearTimeout_def distinct_map_filter)
qed

lemma playNext_seq:
  assumes "pianoTimers s = []" and "\<forall>e \<in> set (timers s). fst e < nextTimer s"
    and "0 < nextTimer s" and "distinct (map fst (timers s))"
    and "ctx s" and "masterGain s = Some m"
  shows "sequencer_ok (playNextPianoNote seeds s)
    \<and> pianoTimeout (playNextPianoNote seeds s) = Some (nextTimer s)
    \<and> pianoTimers (playNextPianoNote seeds s) = [nextTimer s]"
proof -
  have "nextTimer s \<notin> fst ` set (timers s)" using assms(2) by auto
  with assms show ?thesis
    by (cases seeds)
       (auto simp: playNextPianoNote_def Let_def emit_def setTimeout_def sequencer_ok_def
          pianoTimers_def less_Suc_eq)
qed

lemma seq_piano_none:
  assumes "sequencer_ok s" and "\<not> truthy (pianoTimeout s)"
  shows "pianoTimeout s = None \<and> pianoTimers s = []"
  using assms by (cases "pianoTimeout s") (auto simp: sequencer_ok_def)

lemma startPiano_seq:
  assumes "sequencer_ok s"
  shows "sequencer_ok (startPiano seeds s)"
proof (cases "truthy (pianoTimeout s)")
  case True
  with assms show ?thesis by (simp add: startPiano_def)
next
  case False
  from seq_piano_none [OF assms False] have n: "pianoTimeout s = None" "pianoTimers s = []"
    by simp_all
  from assms have b: "\<forall>e \<in> set (timers s). fst e < nextTimer s" "0 < nextTimer s"
    "distinct (map fst (timers s))"
    by (simp_all add: sequencer_ok_def)
  show ?thesis
  proof (cases "masterGain (init s)")
    case None
    then have "playNextPianoNote seeds (init s) = init s"
      by (cases seeds) (simp add: playNextPianoNote_def)
    moreover have "sequencer_ok (init s)"
      using assms by (rule seq_change) (simp_all add: timer_change_def init_keep)
    ultimately show ?thesis using False by (simp add: startPiano_def)
  next
    case (Some m)
    have "sequencer_ok (playNextPianoNote seeds (init s))"
      using playNext_seq [of "init s" m seeds] n b Some by (simp add: pianoTimers_def)
    with False show ?thesis by (simp add: startPiano_def)
  qed
qed

lemma stopPiano_seq:
  assumes "sequencer_ok s"
  shows "sequencer_ok (stopPiano s) \<and> pianoTimers (stopPiano s) = []
    \<and> pianoTimeout (stopPiano s) = None"
proof (cases "pianoTimeout s")
  case None
  with assms show ?thesis by (simp add: stopPiano_def sequencer_ok_def)
next
  case (Some h)
  with assms have h: "h \<noteq> 0" and z: "0 < nextTimer s" by (simp_all add: sequencer_ok_def)
  from clear_piano [OF assms Some] Some h z show ?thesis
    by (simp add: stopPiano_def sequencer_ok_def pianoTimers_def)
qed

lemma pianoTimer_seq:
  assumes "sequencer_ok s" and "map_of (timers s) h = Some (d, PianoNext)"
  shows "sequencer_ok (playNextPianoNote seeds (clearTimeout h s))"
proof -
  from assms(2) have "(h, d, PianoNext) \<in> set (timers s)" by (rule map_of_SomeD)
  then have "h \<in> set (pianoTimers s)" by (force simp: pianoTimers_def)
  with assms(1) have p: "pianoTimeout s = Some h"
    by (cases "pianoTimeout s") (simp_all add: sequencer_ok_def)
  with assms(1) obtain m where c: "ctx s" and m: "masterGain s = Some m"
    and z: "0 < nextTimer s"
    by (auto simp: sequencer_ok_def)
  from clear_piano [OF assms(1) p] c m z
  show ?thesis using playNext_seq [of "clearTimeout h s" m seeds] by simp
qed

lemma exec_seq_ok:
  assumes "exec a s = Inr s'" and "sequencer_ok s"
  shows "sequencer_ok s'"
proof (cases a)
  case Init
  with assms(1) have s': "s' = init s" by simp
  show ?thesis unfolding s' using assms(2)
    by (rule seq_change) (simp_all add: timer_change_def init_keep)
next
  case (Load fetched)
  with assms(1) have s': "s' = loadAmbientTrack fetched s" by simp
  have "ctx s \<longrightarrow> ctx s'" using load_frame [of s fetched] unfolding s' by (simp add: extends_def)
  then show ?thesis unfolding s' using assms(2)
    by (intro seq_change [OF assms(2)]) (simp_all add: timer_change_def load_fields)
next
  case (StartTone f v)
  with assms(1) have e: "startTinnitusTone f v s = Inr s'" by simp
  from startTone_fields [OF e] startTone_frame [OF e] show ?thesis
    by (intro seq_change [OF assms(2)]) (simp_all add: timer_change_def)
next
  case (UpdateTone f)
  with assms(1) have s': "s' = updateTinnitusFreq f s" by simp
  show ?thesis unfolding s'
    by (intro seq_change [OF assms(2)]) (simp_all add: timer_change_def)
next
  case StopTone
  with assms(1) have e: "stopTinnitusTone s = Inr s'" by simp
  from stopTone_frame [OF e] show ?thesis
    by (intro seq_change [OF assms(2)]) (simp_all add: timer_change_def)
next
  case (StartAmbient f)
  with assms(1) have s': "s' = init s" by (simp add: startAmbientTrack_def)
  show ?thesis unfolding s'
    by (intro seq_change [OF assms(2)]) (simp_all add: timer_change_def init_keep)
next
  case (ToggleDrone b)
  show ?thesis
  proof (cases b)
    case True
    with ToggleDrone assms(1) have s': "s' = startDrone s" by (simp add: toggleDrone_def)
    have "ctx s \<longrightarrow> ctx s'" using startDrone_frame [of s] unfolding s' by (simp add: extends_def)
    then show ?thesis unfolding s'
      by (intro seq_change [OF assms(2)]) (simp_all add: timer_change_def startDrone_fields)
  next
    case False
    with ToggleDrone assms(1) have s': "s' = stopDrone s" by (simp add: toggleDrone_def)
    have "ctx s' = ctx s" using stopDrone_frame [of s] unfolding s' by blast
    then show ?thesis unfolding s'
      by (intro seq_change [OF assms(2)]) (simp_all add: stopDrone_fields)
  qed
next
  case (TogglePiano b seeds)
  with assms(1) have s': "s' = togglePiano b seeds s" by simp
  show ?thesis unfolding s' using assms(2)
    by (cases b) (simp_all add: togglePiano_def startPiano_seq stopPiano_seq)
next
  case (Play ty f cb seed)
  with assms(1) obtain h where p: "playInteractionSound ty f cb seed s = Inr (h, s')"
    by (auto simp: andThen_def split: sum.splits)
  have "ctx s \<longrightarrow> ctx s'" using exec_step [OF assms(1), of BIRD] by (simp add: extends_def)
  with play_fields [OF p] show ?thesis
    by (intro seq_change [OF assms(2)]) simp_all
next
  case (CallStop h)
  with assms(1) have e: "callStop h s = Inr s'" by simp
  have "ctx s \<longrightarrow> ctx s'" using exec_step [OF assms(1), of BIRD] by (simp add: extends_def)
  with callStop_fields [OF e] show ?thesis
    by (intro seq_change [OF assms(2)]) (simp_all add: timer_change_def)
next
  case (PianoTimer h seeds)
  with assms(1) obtain d where "map_of (timers s) h = Some (d, PianoNext)"
    and "s' = playNextPianoNote seeds (clearTimeout h s)"
    by (auto split: option.splits callback.splits)
  with pianoTimer_seq [OF assms(2)] show ?thesis by simp
next
  case (DroneTimer h)
  with assms(1) obtain d ns where m: "map_of (timers s) h = Some (d, DroneTeardown ns)"
    and s': "s' = teardown ns (clearTimeout h s)"
    by (auto split: option.splits callback.splits)
  have "timer_change s s'" unfolding timer_change_def s' using m
    by (auto simp: teardown_fields clearTimeout_def)
  then show ?thesis unfolding s'
    by (intro seq_change [OF assms(2)]) (simp_all add: teardown_fields teardown_frame)
next
  case (BirdTimer h)
  with assms(1) obtain d cb where m: "map_of (timers s) h = Some (d, BirdTimeout cb)"
    and s': "s' = birdDone cb (clearTimeout h s)"
    by (auto split: option.splits callback.splits)
  have "timer_change s s'" unfolding timer_change_def s' using m
    by (auto simp: birdDone_fields clearTimeout_def)
  then show ?thesis unfolding s'
    by (intro seq_change [OF assms(2)]) (simp_all add: birdDone_fields birdDone_frame)
next
  case (BirdSourceEnded n)
  with assms(1) obtain cb where s': "s' = birdDone cb (dropHandler n s)"
    by (auto split: option.splits handler.splits)
  show ?thesis unfolding s'
    by (intro seq_change [OF assms(2)])
       (simp_all add: birdDone_fields birdDone_frame timer_change_def)
next
  case (NoteEnded n)
  with assms(1) obtain flt gain where
    s': "s' = emit [Disconnect n, Disconnect flt, Disconnect gain] (dropHandler n s)"
    by (auto split: option.splits handler.splits)
  show ?thesis unfolding s'
    by (intro seq_change [OF assms(2)]) (simp_all add: emit_def timer_change_def)
next
  case (Advance d)
  with assms(1) have s': "s' = s\<lparr>now := now s + d\<rparr>" by (auto split: if_splits)
  show ?thesis unfolding s'
    by (intro seq_change [OF assms(2)]) (simp_all add: timer_change_def)
qed

lemma run_seq_ok:
  assumes "run acts s = Inr s'" and "sequencer_ok s"
  shows "sequencer_ok s'"
  using assms
proof (induction acts arbitrary: s)
  case Nil
  then show ?case by simp
next
  case (Cons a acts)
  from run_Cons [OF Cons.prems(1)] obtain s1 where
    a: "exec a s = Inr s1" and r: "run acts s1 = Inr s'" by blast
  from Cons.IH [OF r exec_seq_ok [OF a Cons.prems(2)]] show ?case .
qed

text \<open>What the INSECT fallback writes to its carrier.\<close>

lemma insect_fallback_written:
  assumes "graph_ok s" and "buffers s INSECT = None"
  shows "\<exists>mainGain modulator s'.
           playInteractionSound INSECT F cb seed s
             = Inr (StopFn INSECT (InsectFallback mainGain (fresh (init s) + 1) modulator), s')
           \<and> CreateOscillator (fresh (init s) + 1) \<in> set (issued s s')
           \<and> List.map_filter (frequency_set (fresh (init s) + 1)) (issued s s')
               = [if 0 < F then F else 6000]
           \<and> 0 < (if 0 < F then F else 6000)"
proof -
  obtain m where m: "masterGain (init s) = Some m"
    using init_master [OF assms(1)] by auto
  obtain cs where cs: "calls (init s) = calls s @ cs"
    and nf: "List.map_filter (frequency_set (fresh (init s) + 1)) cs = []"
    using init_calls by blast
  show ?thesis
    using m cs nf assms(2)
    by (simp add: playInteractionSound_def playINSECT_def updateRainDynamics_def emit_def Let_def
          andThen_def fadeInOut_def issued_def List.map_filter_simps map_filter_append
          split: option.splits)
qed

text \<open>
  With a sample loaded, the playback rate a branch writes is the multiplier of its
  category (times the random factor of LEAVES and WATER); a multiplier that is not a
  number makes the write raise.
\<close>

lemma sampled_rate_is_multiplier:
  assumes "buffers s ty = Some d"
  shows "case multiplier ty f of
           None \<Rightarrow> playBranch ty f cb seed m s = Inl TypeError
         | Some v \<Rightarrow> (\<exists>i s'. playBranch ty f cb seed m s = Inr (i, s')
                         \<and> SetValue (fresh s) PlaybackRate (v * jitter ty seed) \<in> set (calls s'))"
  using assms
  by (cases ty)
     (auto simp: branch_defs emit_def Let_def createSource_def split: option.splits)



section \<open>The claims\<close>

text \<open>
  C1. For every positive reference frequency the multiplier of the aggressive mapping
  (BIRD, INSECT) is \<open>clamp(F/8000, 0.5, 2.5)\<close> and that of the damped mapping (WIND,
  LEAVES, WATER, RAIN) is \<open>clamp(sqrt(F/8000), 0.6, 1.8)\<close>; at the ends of the
  calibration range, 4500 and 10000, the values are 0.5625 and 0.75, and 1.25 and
  \<open>sqrt 1.25\<close>.
\<close>

theorem pitch_multiplier_is_clamp:
  assumes "0 < F"
  shows "multiplier BIRD F = Some (clamp (F / 8000) 0.5 2.5)
    \<and> multiplier INSECT F = Some (clamp (F / 8000) 0.5 2.5)
    \<and> multiplier WIND F = Some (clamp (sqrt (F / 8000)) 0.6 1.8)
    \<and> multiplier LEAVES F = Some (clamp (sqrt (F / 8000)) 0.6 1.8)
    \<and> multiplier WATER F = Some (clamp (sqrt (F / 8000)) 0.6 1.8)
    \<and> multiplier RAIN F = Some (clamp (sqrt (F / 8000)) 0.6 1.8)
    \<and> multiplier BIRD 4500 = Some 0.5625 \<and> multiplier WIND 4500 = Some 0.75
    \<and> multiplier BIRD 10000 = Some 1.25 \<and> multiplier WIND 10000 = Some (sqrt 1.25)"
proof -
  have r: "\<not> F / 8000 < 0" using assms by simp
  have a: "calculatePitch F 8000 True = Some (clamp (F / 8000) 0.5 2.5)"
    by (simp add: calculatePitch_def clamp_def)
  have d: "calculatePitch F 8000 False = Some (clamp (sqrt (F / 8000)) 0.6 1.8)"
    using r by (simp add: calculatePitch_def clamp_def Let_def)
  have s1: "sqrt (4500 / 8000) = 0.75"
    by (rule real_sqrt_unique) (simp_all add: power2_eq_square)
  have b1: "(0.6::real) \<le> sqrt (5 / 4)"
    by (rule real_le_rsqrt) (simp add: power2_eq_square)
  have b2: "sqrt (5 / 4) \<le> (1.8::real)"
    by (rule real_le_lsqrt) (simp_all add: power2_eq_square)
  have lo: "multiplier BIRD 4500 = Some 0.5625 \<and> multiplier WIND 4500 = Some 0.75"
    using s1 by (simp add: calculatePitch_def)
  have hi: "multiplier BIRD 10000 = Some 1.25 \<and> multiplier WIND 10000 = Some (sqrt 1.25)"
    using b1 b2 by (simp add: calculatePitch_def)
  show ?thesis using a d lo hi by simp
qed

theorem pitch_multiplier_is_clamp_witness:
  "(0::real) < 8000 \<and> multiplier BIRD 8000 = Some (clamp (8000 / 8000) 0.5 2.5)
     \<and> multiplier RAIN 8000 = Some (clamp (sqrt (8000 / 8000)) 0.6 1.8)
     \<and> multiplier RAIN 8000 = Some 1 \<and> multiplier BIRD 8000 = Some 1"
  using pitch_multiplier_is_clamp [of 8000]
  by (simp add: clamp_def)

text \<open>
  C2. The claim: while RAIN is active, every start and stop of a sound recomputes the
  rain target as 0.05 with another sound active and 0.15 without, and as 0.03 and 0.08
  when RAIN runs as synthesized fallback. The code keeps the first pair for both modes:
  the fallback branch starts RAIN towards 0.08 (0.03 when ducked), but the update that
  runs on every start and stop knows no mode. With no rain sample, RAIN starts towards
  0.08; starting WIND sends it to 0.05, and stopping WIND to 0.15.
\<close>

theorem ducking_ignores_fallback_mode:
  "buffers initial RAIN = None
   \<and> playInteractionSound WIND 8000 False 0
        (snd (projr (playInteractionSound RAIN 8000 False 0 initial))) = Inr rain_then_wind
   \<and> callStop (fst rain_then_wind) (snd rain_then_wind) = Inr rain_alone_again
   \<and> rainGainNode rain_alone_again = Some 1
   \<and> LinearRamp 1 Gain 0.08 1 \<in> set (calls rain_alone_again)
   \<and> duckTargets 1 (calls (snd rain_then_wind)) = [0.05]
   \<and> duckTargets 1 (calls rain_alone_again) = [0.05, 0.15]"
  by (simp add: rain_alone_again_def rain_then_wind_def eval_defs duckTargets_def
        List.map_filter_simps)




text \<open>
  C4, as claimed: an identifier is in the active set exactly when its channel is producing
  audio, fade-out included, also when the same identifier is started twice. The claim
  fails: after WIND is started twice and the first stop function is called, WIND is not
  in the set, yet the second channel sounds (it was never stopped) and the first is still
  fading (its source stops 2.1 seconds later).
\<close>

theorem active_set_misses_sounding_channels:
  "playInteractionSound WIND 8000 False 0 initial = Inr first_start
   \<and> playInteractionSound WIND 8000 False 0 (snd first_start) = Inr second_start
   \<and> callStop (fst first_start) (snd second_start) = Inr first_stopped
   \<and> WIND \<notin> activeSounds first_stopped
   \<and> channel_sounding (fst second_start) first_stopped
   \<and> channel_sounding (fst first_start) first_stopped"
  by (simp add: first_stopped_def second_start_def first_start_def eval_defs)

text \<open>
  C4, amended: the active set follows the requests, not the sound. After any run of
  events that the engine completes, an identifier is in the set exactly when the last
  event about it was a start: \<open>playInteractionSound\<close> inserts it, and a call of one of
  its stop functions, or the natural end of a BIRD channel, removes it at once, whatever
  still sounds.
\<close>

theorem membership_follows_last_request:
  assumes "graph_ok s" and "run acts s = Inr s'"
  shows "(X \<in> activeSounds s') = member_after X acts (X \<in> activeSounds s)"
  using assms
proof (induction acts arbitrary: s)
  case Nil
  then show ?case by simp
next
  case (Cons a acts)
  from run_Cons [OF Cons.prems(2)] obtain s1 where
    a: "exec a s = Inr s1" and r: "run acts s1 = Inr s'" by blast
  from exec_step [OF a, of X] Cons.prems(1)
  have g: "graph_ok s1" and m: "(X \<in> activeSounds s1) = after_event X a (X \<in> activeSounds s)"
    by blast+
  from Cons.IH [OF g r] m show ?case by simp
qed

theorem membership_follows_last_request_witness:
  "graph_ok initial
   \<and> run [Play WIND 8000 False 0, Play WIND 8000 False 0, CallStop (fst first_start)] initial
       = Inr first_stopped
   \<and> (WIND \<in> activeSounds first_stopped)
       = member_after WIND
           [Play WIND 8000 False 0, Play WIND 8000 False 0, CallStop (fst first_start)]
           (WIND \<in> activeSounds initial)
   \<and> WIND \<notin> activeSounds first_stopped"
proof -
  have g: "graph_ok initial" by (simp add: eval_defs)
  have r: "run [Play WIND 8000 False 0, Play WIND 8000 False 0, CallStop (fst first_start)] initial
             = Inr first_stopped"
    by (simp add: first_stopped_def second_start_def first_start_def eval_defs)
  have n: "WIND \<notin> activeSounds first_stopped"
    by (simp add: first_stopped_def second_start_def first_start_def eval_defs)
  from membership_follows_last_request [OF g r, of WIND] g r n show ?thesis by simp
qed



text \<open>
  C6. The claim: every stop cancels the ramps scheduled on its gain before it schedules
  its fade-out, sampled or synthesized. The sampled loops do; the fallback closures (and
  the sampled BIRD one) do not. With no WIND sample, WIND started at time 0 fades in
  towards 0.25 until time 2; stopped at time 0.5, the closure only appends the ramp to
  zero at 2.5 and the stop of the noise source, and the fade-in stays scheduled. With a
  WIND sample the closure cancels first.
\<close>

theorem fallback_stop_keeps_stale_ramp:
  "buffers initial WIND = None
   \<and> callStop (fst first_start) ((snd first_start)\<lparr>now := 0.5\<rparr>) = Inr wind_stopped_early
   \<and> LinearRamp 1 Gain 0.25 2 \<in> set (calls (snd first_start))
   \<and> issued (snd first_start) wind_stopped_early = [LinearRamp 1 Gain 0 2.5, Stop 2 2.6]
   \<and> callStop (fst sampled_start) ((snd sampled_start)\<lparr>now := 0.5\<rparr>) = Inr sampled_stopped_early
   \<and> issued (snd sampled_start) sampled_stopped_early
       = [CancelScheduled 2 Gain 0.5, LinearRamp 2 Gain 0 2, Stop 1 2.1]"
  by (simp add: wind_stopped_early_def first_start_def sampled_stopped_early_def
        sampled_start_def loadAmbientTrack_def issued_def eval_defs)

text \<open>
  C7. Enabling the sequencer leaves exactly one pending timer with its callback, the one
  \<open>pianoTimeout\<close> names; whatever happens then (the timer firing and rescheduling itself
  any number of times, other sounds, time passing), disabling it leaves no pending timer
  of the sequencer and clears \<open>pianoTimeout\<close>.
\<close>

theorem sequencer_disable_leaves_no_timer:
  assumes "graph_ok s" and "sequencer_ok s"
    and "run acts (togglePiano True seeds s) = Inr s1"
  shows "(\<exists>h. pianoTimeout (togglePiano True seeds s) = Some h
              \<and> pianoTimers (togglePiano True seeds s) = [h])
       \<and> pianoTimers (togglePiano False seeds' s1) = []
       \<and> pianoTimeout (togglePiano False seeds' s1) = None"
proof -
  have one: "\<exists>h. pianoTimeout (startPiano seeds s) = Some h \<and> pianoTimers (startPiano seeds s) = [h]"
  proof (cases "truthy (pianoTimeout s)")
    case True
    then obtain h where "pianoTimeout s = Some h" by (cases "pianoTimeout s") simp_all
    with True assms(2) show ?thesis by (simp add: startPiano_def sequencer_ok_def)
  next
    case False
    from seq_piano_none [OF assms(2) False] have n: "pianoTimers s = []" by simp
    from assms(2) have b: "\<forall>e \<in> set (timers s). fst e < nextTimer s" "0 < nextTimer s"
      "distinct (map fst (timers s))"
      by (simp_all add: sequencer_ok_def)
    obtain m where m: "masterGain (init s) = Some m"
      using init_master [OF assms(1)] by auto
    from playNext_seq [of "init s" m seeds] n b m False show ?thesis
      by (simp add: startPiano_def pianoTimers_def)
  qed
  have "sequencer_ok (togglePiano True seeds s)"
    using assms(2) by (simp add: togglePiano_def startPiano_seq)
  with assms(3) have "sequencer_ok s1" by (rule run_seq_ok)
  from stopPiano_seq [OF this] one show ?thesis by (simp add: togglePiano_def)
qed

theorem sequencer_disable_leaves_no_timer_witness:
  "graph_ok initial \<and> sequencer_ok initial
   \<and> run [PianoTimer 1 (0.1, 0.2, 0.3, 0.4), Advance 1]
        (togglePiano True (0.5, 0.5, 0.5, 0.5) initial) = Inr piano_running
   \<and> pianoTimers (togglePiano True (0.5, 0.5, 0.5, 0.5) initial) = [1]
   \<and> pianoTimers piano_running = [2]
   \<and> pianoTimers (togglePiano False (0, 0, 0, 0) piano_running) = []
   \<and> pianoTimeout (togglePiano False (0, 0, 0, 0) piano_running) = None"
proof -
  have g: "graph_ok initial" by (simp add: eval_defs)
  have q: "sequencer_ok initial" by (simp add: sequencer_ok_def pianoTimers_def initial_def)
  have r: "run [PianoTimer 1 (0.1, 0.2, 0.3, 0.4), Advance 1]
             (togglePiano True (0.5, 0.5, 0.5, 0.5) initial) = Inr piano_running"
    by (simp add: piano_running_def togglePiano_def startPiano_def playNextPianoNote_def
          eval_defs)
  have a: "pianoTimers (togglePiano True (0.5, 0.5, 0.5, 0.5) initial) = [1]"
    by (simp add: pianoTimers_def togglePiano_def startPiano_def playNextPianoNote_def eval_defs)
  have b: "pianoTimers piano_running = [2]"
    by (simp add: piano_running_def pianoTimers_def togglePiano_def startPiano_def
          playNextPianoNote_def eval_defs)
  from sequencer_disable_leaves_no_timer [OF g q r, of "(0, 0, 0, 0)"] g q r a b
  show ?thesis by simp
qed

text \<open>
  C8. In every state the engine reaches, \<open>stopTinnitusTone\<close> returns, and a second call,
  at once or any time later, returns too and leaves every field of the engine as the
  first call left it: no oscillator is held any more, none is stopped again, no timer or
  handler changes. All the second call does is to schedule the ramp to the floor 0.001
  once more on the gain node the engine still holds. With no tone ever started the call
  changes nothing.
\<close>

theorem stop_tone_twice:
  assumes "tone_ok s0" and "run acts s0 = Inr s" and "0 \<le> d"
  shows "\<exists>s1 s2. stopTinnitusTone s = Inr s1
           \<and> stopTinnitusTone (s1\<lparr>now := now s1 + d\<rparr>) = Inr s2
           \<and> tinnitusOsc s1 = None
           \<and> engineFields s2 = engineFields s1
           \<and> timers s2 = timers s1 \<and> onended s2 = onended s1 \<and> fresh s2 = fresh s1
           \<and> issued s1 s2
               = (case tinnitusGain s1 of
                    Some g \<Rightarrow> [ExponentialRamp g Gain 0.001 (now s1 + d + 0.5)]
                  | None \<Rightarrow> [])
           \<and> (tinnitusOsc s = None \<and> tinnitusGain s = None \<longrightarrow> s1 = s \<and> s2 = s\<lparr>now := now s + d\<rparr>)"
proof -
  from run_tone_ok [OF assms(2,1)] have t: "tone_ok s" .
  from stopTone_returns [OF t] obtain s1 where s1: "stopTinnitusTone s = Inr s1" by blast
  from stopTone_frame [OF s1] have n: "tinnitusOsc s1 = None"
    and g: "tinnitusGain s1 = tinnitusGain s" and c: "ctx s1 = ctx s" by simp_all
  from t g c have gc: "tinnitusGain s1 \<noteq> None \<longrightarrow> ctx s1" by (simp add: tone_ok_def)
  have idle: "tinnitusOsc s = None \<and> tinnitusGain s = None \<longrightarrow> s1 = s"
    using s1 by (auto simp: stopTinnitusTone_def Let_def)
  show ?thesis
    using s1 n gc idle
    by (auto simp: stopTinnitusTone_def Let_def emit_def engineFields_def issued_def
          split: option.splits)
qed

theorem stop_tone_twice_witness:
  "tone_ok initial \<and> run [StartTone 6000 0.1] initial = Inr tone_playing \<and> (0::real) \<le> 0
   \<and> tinnitusOsc tone_playing = Some 1 \<and> tinnitusGain tone_playing = Some 2
   \<and> (\<exists>s1 s2. stopTinnitusTone tone_playing = Inr s1
         \<and> stopTinnitusTone (s1\<lparr>now := now s1 + 0\<rparr>) = Inr s2
         \<and> tinnitusOsc s1 = None
         \<and> engineFields s2 = engineFields s1
         \<and> issued s1 s2
             = (case tinnitusGain s1 of
                  Some g \<Rightarrow> [ExponentialRamp g Gain 0.001 (now s1 + 0 + 0.5)]
                | None \<Rightarrow> []))"
proof -
  have t: "tone_ok initial" by (simp add: tone_ok_def initial_def)
  have r: "run [StartTone 6000 0.1] initial = Inr tone_playing"
    by (simp add: tone_playing_def startTinnitusTone_def eval_defs)
  have z: "(0::real) \<le> 0" by simp
  have f: "tinnitusOsc tone_playing = Some 1 \<and> tinnitusGain tone_playing = Some 2"
    by (simp add: tone_playing_def startTinnitusTone_def eval_defs)
  from stop_tone_twice [OF t r z] t r f show ?thesis by blast
qed

text \<open>
  C9. Enabling the drone twice, with any time between the two calls, leaves the engine
  as one enable does: the second call is a no-op. From a state without a drone the two
  calls together create one stack of nine nodes, four of them oscillators.
\<close>

theorem drone_enabled_twice_is_one_drone:
  "toggleDrone True ((toggleDrone True s)\<lparr>now := t\<rparr>) = (toggleDrone True s)\<lparr>now := t\<rparr>
   \<and> (graph_ok s \<and> droneNodes s = [] \<longrightarrow>
        droneNodes (toggleDrone True s) = map (\<lambda>k. fresh (init s) + k) [0..<9]
        \<and> length (filter creates_oscillator
             (issued s (toggleDrone True ((toggleDrone True s)\<lparr>now := t\<rparr>)))) = 4)"
proof (intro conjI impI)
  show a: "toggleDrone True ((toggleDrone True s)\<lparr>now := t\<rparr>) = (toggleDrone True s)\<lparr>now := t\<rparr>"
    by (simp add: toggleDrone_def startDrone_again)
  assume h: "graph_ok s \<and> droneNodes s = []"
  then obtain m where m: "masterGain (init s) = Some m"
    using init_master [of s] by auto
  obtain cs where cs: "calls (init s) = calls s @ cs" and nf: "filter creates_oscillator cs = []"
    using init_calls_osc by blast
  have nine: "[0..<9] = [0, 1, 2, 3, 4, 5, 6, 7, 8::nat]" by (simp add: upt_rec)
  show "droneNodes (toggleDrone True s) = map (\<lambda>k. fresh (init s) + k) [0..<9]"
    using h m by (simp add: toggleDrone_def startDrone_def Let_def emit_def nine)
  show "length (filter creates_oscillator
          (issued s (toggleDrone True ((toggleDrone True s)\<lparr>now := t\<rparr>)))) = 4"
    unfolding a using h m cs nf
    by (simp add: toggleDrone_def startDrone_def Let_def emit_def issued_def)
qed

theorem drone_enabled_twice_is_one_drone_witness:
  "graph_ok initial \<and> droneNodes initial = []
   \<and> toggleDrone True ((toggleDrone True initial)\<lparr>now := 3\<rparr>) = (toggleDrone True initial)\<lparr>now := 3\<rparr>
   \<and> droneNodes (toggleDrone True initial) = [1, 2, 3, 4, 5, 6, 7, 8, 9]
   \<and> length (filter creates_oscillator
        (issued initial (toggleDrone True ((toggleDrone True initial)\<lparr>now := 3\<rparr>)))) = 4"
proof -
  have g: "graph_ok initial" and d: "droneNodes initial = []" by (simp_all add: eval_defs)
  have f: "map (\<lambda>k. fresh (init initial) + k) [0..<9] = [1, 2, 3, 4, 5, 6, 7, 8, 9]"
    by (simp add: eval_defs upt_rec)
  note th = drone_enabled_twice_is_one_drone [where s = initial and t = 3, unfolded f]
  from th g d show ?thesis by blast
qed

text \<open>
  C10. With no insect sample loaded, \<open>playInteractionSound\<close> for INSECT creates the
  carrier oscillator and writes its frequency once: the reference frequency when that is
  positive, 6000 otherwise. The value written is positive for every real input.
\<close>

theorem insect_fallback_carrier_positive:
  assumes "graph_ok s" and "buffers s INSECT = None"
  shows "\<exists>mainGain modulator s'.
           playInteractionSound INSECT F cb seed s
             = Inr (StopFn INSECT (InsectFallback mainGain (fresh (init s) + 1) modulator), s')
           \<and> CreateOscillator (fresh (init s) + 1) \<in> set (issued s s')
           \<and> List.map_filter (frequency_set (fresh (init s) + 1)) (issued s s')
               = [if 0 < F then F else 6000]
           \<and> 0 < (if 0 < F then F else 6000)"
  using assms by (rule insect_fallback_written)

theorem insect_fallback_carrier_positive_witness:
  "graph_ok initial \<and> buffers initial INSECT = None
   \<and> (\<exists>mainGain modulator s'.
         playInteractionSound INSECT (- 440) False 0 initial
           = Inr (StopFn INSECT (InsectFallback mainGain 2 modulator), s')
         \<and> CreateOscillator 2 \<in> set (issued initial s')
         \<and> List.map_filter (frequency_set 2) (issued initial s') = [6000])"
proof -
  have g: "graph_ok initial" by (simp add: eval_defs)
  have b: "buffers initial INSECT = None" by (simp add: initial_def)
  have f: "fresh (init initial) + 1 = 2" by (simp add: eval_defs)
  from insect_fallback_carrier_positive [OF g b, of "- 440" False 0] g b show ?thesis
    unfolding f by simp
qed

end
